theory Spec2Isabelle
  imports Complex_Main "HOL-Library.AList"
begin

section \<open>Task dispatcher: data model\<close>

text \<open>
  The dispatcher of \<^verbatim>\<open>Dispatcher.cpp\<close> (class \<^verbatim>\<open>Dispatcher::Implementation\<close>) is
  embedded with explicit state passing. The message and status types come from headers;
  the fields kept here are the ones the dispatcher reads or writes.
  A time stamp is the number of nanoseconds that \<^verbatim>\<open>rmf_traffic_ros2::convert\<close> yields.
\<close>

type_synonym TaskID = string
type_synonym Time = int

datatype State = Queued | Executing | Completed | Failed | Canceled | Pending

record TaskDescription =
  task_type :: nat
  start_time :: Time
  priority :: nat

record TaskProfile =
  task_id :: TaskID
  submission_time :: Time
  description :: TaskDescription

record TaskStatus =
  fleet_name :: string
  task_profile :: TaskProfile
  state :: State

text \<open>
  Modelled from the spec: \<^verbatim>\<open>TaskStatus::is_terminated\<close> is declared in a header that is
  not part of the source at hand; the spec names Completed, Failed and Canceled as the
  terminal states. A status is created Pending, with an empty fleet name.
\<close>

definition is_terminated :: "TaskStatus \<Rightarrow> bool" where
  "is_terminated st = (state st = Failed \<or> state st = Completed \<or> state st = Canceled)"

record BidNotice =
  notice_task_profile :: TaskProfile
  time_window :: real

record Submission =
  winner_fleet_name :: string
  winner_robot_name :: string

record SubmitTaskResponse =
  success :: bool
  response_task_id :: TaskID
  message :: string

text \<open>
  Calls that leave the dispatcher (logger, publisher, auctioneer, observer, action client)
  are recorded in the order in which the code issues them. A log entry keeps the format
  string of the source and the arguments substituted into it.
\<close>

datatype severity = INFO | WARN | ERROR

datatype event =
    Log severity string "string list"
  | Publish_ongoing_tasks "TaskStatus list"
  | Start_bidding BidNotice
  | On_change TaskStatus
  | Action_add_task string TaskProfile TaskStatus
  | Action_cancel_task TaskProfile

text \<open>
  \<^verbatim>\<open>DispatchTasks\<close> is a map from \<^verbatim>\<open>TaskID\<close> to a shared status; it is an association
  list here, whose order stands for the iteration order of the container. Statuses are
  values: a pointer of the source stands for the status it designates when it is used, and
  a write through it is a write to the entry of the table that holds it. A reference to
  the pointer stored in an entry can be used only while the entry is in its table.
  \<^verbatim>\<open>task_counter\<close> is a \<^verbatim>\<open>std::size_t\<close>, \<^verbatim>\<open>terminated_tasks_max_size\<close> an \<^verbatim>\<open>int\<close>.
  \<^verbatim>\<open>on_change_fn\<close> records whether an observer is registered.
\<close>

type_synonym DispatchTasks = "(TaskID \<times> TaskStatus) list"

record Dispatcher =
  queue_bidding_tasks :: "BidNotice list"
  active_dispatch_tasks :: DispatchTasks
  terminal_dispatch_tasks :: DispatchTasks
  user_submitted_tasks :: "TaskID set"
  task_counter :: nat
  bidding_time_window :: real
  terminated_tasks_max_size :: int
  on_change_fn :: bool
  events :: "event list"

text \<open>Undefined behaviour and failed assertions of the C++ code are results of the model.\<close>

datatype fault =
    Assertion_failed
  | Past_the_end_iterator
  | Pop_empty_queue
  | Invalidated_iterator
  | Index_out_of_range
  | Dangling_reference

definition emit :: "event \<Rightarrow> Dispatcher \<Rightarrow> Dispatcher" where
  "emit e s = s\<lparr>events := events s @ [e]\<rparr>"

definition on_change :: "TaskStatus \<Rightarrow> Dispatcher \<Rightarrow> Dispatcher" where
  "on_change st s = (if on_change_fn s then emit (On_change st) s else s)"

section \<open>Minting task ids\<close>

fun task_type_name :: "nat \<Rightarrow> string option" where
  "task_type_name n =
     (if n = 0 then Some ''Station''
      else if n = 1 then Some ''Loop''
      else if n = 2 then Some ''Delivery''
      else if n = 3 then Some ''ChargeBattery''
      else if n = 4 then Some ''Clean''
      else if n = 5 then Some ''Patrol''
      else None)"

definition digit_char :: "nat \<Rightarrow> char" where
  "digit_char d = ''0123456789'' ! d"

text \<open>\<^verbatim>\<open>std::to_string\<close> on an unsigned value: its decimal digits.\<close>

fun to_string :: "nat \<Rightarrow> string" where
  "to_string n =
     (if n < 10 then [digit_char n] else to_string (n div 10) @ [digit_char (n mod 10)])"

declare to_string.simps [simp del]

definition size_t_max :: nat where
  "size_t_max = 2 ^ 64"

section \<open>Dispatcher operations\<close>

definition start_next_bidding :: "Dispatcher \<Rightarrow> Dispatcher" where
  "start_next_bidding s =
     (if queue_bidding_tasks s \<noteq> [] then emit (Start_bidding (hd (queue_bidding_tasks s))) s
      else s)"

definition submit_task :: "Time \<Rightarrow> TaskDescription \<Rightarrow> Dispatcher \<Rightarrow> TaskID option \<times> Dispatcher" where
  "submit_task now descr s =
     (case task_type_name (task_type descr) of
        None \<Rightarrow>
          (None, emit (Log ERROR ''TaskType: %ld is invalid'' [to_string (task_type descr)]) s)
      | Some name \<Rightarrow>
          let tid = name @ to_string (task_counter s);
              submitted_task = \<lparr>task_id = tid, submission_time = now, description = descr\<rparr>;
              s1 = s\<lparr>task_counter := (task_counter s + 1) mod size_t_max\<rparr>;
              s2 = emit (Log INFO ''Received Task Submission [%s]'' [tid]) s1;
              new_task_status =
                \<lparr>fleet_name = [], task_profile = submitted_task, state = Pending\<rparr>;
              s3 = s2\<lparr>active_dispatch_tasks :=
                        AList.update tid new_task_status (active_dispatch_tasks s2),
                      user_submitted_tasks := insert tid (user_submitted_tasks s2)\<rparr>;
              s4 = on_change new_task_status s3;
              bid_notice =
                \<lparr>notice_task_profile = submitted_task, time_window = bidding_time_window s4\<rparr>;
              s5 = s4\<lparr>queue_bidding_tasks := queue_bidding_tasks s4 @ [bid_notice]\<rparr>;
              s6 = (if length (queue_bidding_tasks s5) = 1
                    then emit (Start_bidding (hd (queue_bidding_tasks s5))) s5 else s5)
          in (Some tid, s6))"

text \<open>The handler of the submit service: the response starts out default-constructed.\<close>

definition submit_task_srv ::
  "Time \<Rightarrow> TaskDescription \<Rightarrow> Dispatcher \<Rightarrow> SubmitTaskResponse \<times> Dispatcher" where
  "submit_task_srv now descr s =
     (let response = \<lparr>success = False, response_task_id = [], message = []\<rparr> in
      case submit_task now descr s of
        (None, s') \<Rightarrow> (response\<lparr>success := False, message := ''Task type is invalid''\<rparr>, s')
      | (Some tid, s') \<Rightarrow> (response\<lparr>response_task_id := tid, success := True\<rparr>, s'))"

definition publish_ongoing_tasks :: "Dispatcher \<Rightarrow> Dispatcher" where
  "publish_ongoing_tasks s = emit (Publish_ongoing_tasks (map snd (active_dispatch_tasks s))) s"

text \<open>
  The capacity test compares \<^verbatim>\<open>size()\<close>, a \<^verbatim>\<open>std::size_t\<close>, with an \<^verbatim>\<open>int\<close>: the
  \<^verbatim>\<open>int\<close> is converted to the unsigned type (64 bits), so a negative bound becomes a
  huge one.
\<close>

definition size_t_of_int :: "int \<Rightarrow> nat" where
  "size_t_of_int i = nat (i mod 2 ^ 64)"

definition capacity_reached :: "Dispatcher \<Rightarrow> bool" where
  "capacity_reached s =
     (size_t_of_int (terminated_tasks_max_size s) \<le> length (terminal_dispatch_tasks s))"

text \<open>
  The scan for the entry to remove. \<^verbatim>\<open>rm_task\<close> starts at the element after
  \<^verbatim>\<open>begin()\<close> and \<^verbatim>\<open>it\<close> runs over the whole container; each round dereferences both.
  With fewer than two entries \<^verbatim>\<open>rm_task\<close> is (or is advanced past) \<^verbatim>\<open>end()\<close>.
\<close>

abbreviation entry_time :: "TaskID \<times> TaskStatus \<Rightarrow> Time" where
  "entry_time e \<equiv> submission_time (task_profile (snd e))"

fun eviction_scan :: "TaskID \<times> TaskStatus \<Rightarrow> DispatchTasks \<Rightarrow> TaskID \<times> TaskStatus" where
  "eviction_scan rm_task [] = rm_task"
| "eviction_scan rm_task (it # rest) =
     eviction_scan (if entry_time it < entry_time rm_task then it else rm_task) rest"

definition find_rm_task :: "DispatchTasks \<Rightarrow> fault + TaskID \<times> TaskStatus" where
  "find_rm_task tasks =
     (case tasks of
        [] \<Rightarrow> Inl Past_the_end_iterator
      | [x] \<Rightarrow> Inl Past_the_end_iterator
      | x # y # rest \<Rightarrow> Inr (eviction_scan y tasks))"

definition evict_if_full :: "Dispatcher \<Rightarrow> fault + Dispatcher" where
  "evict_if_full s =
     (if capacity_reached s then
        (case find_rm_task (terminal_dispatch_tasks s) of
           Inl f \<Rightarrow> Inl f
         | Inr rm_task \<Rightarrow>
             Inr ((emit (Log WARN
                     ''Terminated tasks reached max size, remove earliest submited task'' []) s)
                  \<lparr>terminal_dispatch_tasks :=
                     AList.delete (fst rm_task) (terminal_dispatch_tasks s)\<rparr>))
      else Inr s)"

definition terminate_task :: "TaskStatus \<Rightarrow> Dispatcher \<Rightarrow> fault + Dispatcher" where
  "terminate_task terminate_status s =
     (if \<not> is_terminated terminate_status then Inl Assertion_failed
      else
        (case evict_if_full (publish_ongoing_tasks s) of
           Inl f \<Rightarrow> Inl f
         | Inr s1 \<Rightarrow>
             let tid = task_id (task_profile terminate_status) in
             Inr (s1\<lparr>terminal_dispatch_tasks :=
                       AList.update tid terminate_status (terminal_dispatch_tasks s1),
                     user_submitted_tasks := user_submitted_tasks s1 - {tid},
                     active_dispatch_tasks := AList.delete tid (active_dispatch_tasks s1)\<rparr>)))"

definition task_status_cb :: "TaskStatus \<Rightarrow> Dispatcher \<Rightarrow> Dispatcher" where
  "task_status_cb status s =
     (let tid = task_id (task_profile status);
          s1 = (case map_of (active_dispatch_tasks s) tid of
                  None \<Rightarrow>
                    emit (Log WARN ''Add previously unheard task: [%s]'' [tid])
                      (s\<lparr>active_dispatch_tasks := AList.update tid status (active_dispatch_tasks s)\<rparr>)
                | Some _ \<Rightarrow> s);
          s2 = (if queue_bidding_tasks s1 \<noteq> []
                  \<and> tid = task_id (notice_task_profile (hd (queue_bidding_tasks s1)))
                then start_next_bidding (s1\<lparr>queue_bidding_tasks := tl (queue_bidding_tasks s1)\<rparr>)
                else s1)
      in on_change status s2)"

text \<open>
  \<^verbatim>\<open>cancel_task\<close> and \<^verbatim>\<open>receive_bidding_winner_cb\<close> bind a reference
  (\<^verbatim>\<open>const auto&\<close>) to the shared pointer stored in the entry of the active table that
  \<^verbatim>\<open>find\<close> returned for the task id. The reference designates that entry: it can be
  used as long as the entry is in the table, and a use after \<^verbatim>\<open>terminate_task\<close> has
  erased the entry is undefined. Nothing is inserted into the active table while the
  reference is in use, so the entry is there exactly when its key is.
  \<^verbatim>\<open>if (on_change_fn) on_change_fn(ref)\<close> reads the reference only when an observer is
  registered.
\<close>

definition referenced_status :: "TaskID \<Rightarrow> Dispatcher \<Rightarrow> fault + TaskStatus" where
  "referenced_status tid s =
     (case map_of (active_dispatch_tasks s) tid of
        None \<Rightarrow> Inl Dangling_reference
      | Some st \<Rightarrow> Inr st)"

definition notify_referenced :: "TaskID \<Rightarrow> Dispatcher \<Rightarrow> fault + Dispatcher" where
  "notify_referenced tid s =
     (if on_change_fn s then
        (case referenced_status tid s of
           Inl f \<Rightarrow> Inl f
         | Inr st \<Rightarrow> Inr (emit (On_change st) s))
      else Inr s)"

text \<open>
  The loop that removes the tasks a fleet generated by itself, written twice in the source
  (in \<^verbatim>\<open>cancel_task\<close> and in \<^verbatim>\<open>receive_bidding_winner_cb\<close>) with the same body.
  The second argument holds the entries that the iterator has not visited yet.
  \<^verbatim>\<open>terminate_task\<close> erases the key \<^verbatim>\<open>task_profile.task_id\<close> of the status from the
  container under iteration: the iterator has been advanced before the call, so erasing
  the entry it now points to invalidates it, and erasing a later entry removes that entry
  from the rest of the iteration.
\<close>

function remove_self_generated ::
  "string \<Rightarrow> DispatchTasks \<Rightarrow> Dispatcher \<Rightarrow> fault + Dispatcher" where
  "remove_self_generated fleet [] s = Inr s"
| "remove_self_generated fleet (it # rest) s =
     (let is_fleet_name = (fleet = fleet_name (snd it));
          is_self_generated = (fst it \<notin> user_submitted_tasks s)
      in if is_self_generated \<and> is_fleet_name then
           let s1 = s\<lparr>active_dispatch_tasks :=
                        AList.map_entry (fst it) (\<lambda>st. st\<lparr>state := Canceled\<rparr>)
                          (active_dispatch_tasks s)\<rparr>;
               canceled = (snd it)\<lparr>state := Canceled\<rparr>;
               tid = task_id (task_profile canceled)
           in if rest \<noteq> [] \<and> fst (hd rest) = tid then Inl Invalidated_iterator
              else (case terminate_task canceled s1 of
                      Inl f \<Rightarrow> Inl f
                    | Inr s2 \<Rightarrow> remove_self_generated fleet (AList.delete tid rest) s2)
         else remove_self_generated fleet rest s)"
  by pat_completeness auto
termination
  by (relation "measure (\<lambda>(fleet, todo, s). length todo)")
     (auto simp: AList.delete_eq less_Suc_eq_le)

declare remove_self_generated.simps [simp del]

text \<open>
  \<^verbatim>\<open>action::Client\<close> is outside the source at hand. What its \<^verbatim>\<open>cancel_task\<close> returns
  is the argument \<^verbatim>\<open>client_ack\<close>; its \<^verbatim>\<open>add_task\<close> is recorded as an event.
  In the Pending case \<^verbatim>\<open>terminate_task\<close> receives a copy of the shared pointer and
  erases the entry of the task; the observer is then called with the reference
  \<^verbatim>\<open>cancel_task_status\<close>. In the Queued case the loop reads the fleet name through
  the reference in every round and the profile after the loop; the entry it designates is
  not one the loop writes to, and once it is erased the read after the loop is undefined,
  which is where the model reports it.
\<close>

definition cancel_task :: "TaskID \<Rightarrow> bool \<Rightarrow> Dispatcher \<Rightarrow> fault + bool \<times> Dispatcher" where
  "cancel_task tid client_ack s =
     (case map_of (active_dispatch_tasks s) tid of
        None \<Rightarrow>
          Inr (False, emit (Log ERROR ''Task [%s] is not found in active_tasks'' [tid]) s)
      | Some cancel_task_status \<Rightarrow>
          let s1 = emit (Log WARN ''Cancel task: [%s]'' [tid]) s in
          if state cancel_task_status = Pending then
            let canceled = cancel_task_status\<lparr>state := Canceled\<rparr>;
                s2 = s1\<lparr>active_dispatch_tasks :=
                         AList.map_entry tid (\<lambda>st. st\<lparr>state := Canceled\<rparr>)
                           (active_dispatch_tasks s1)\<rparr>
            in (case terminate_task canceled s2 of
                  Inl f \<Rightarrow> Inl f
                | Inr s3 \<Rightarrow>
                    (case notify_referenced tid s3 of
                       Inl f \<Rightarrow> Inl f
                     | Inr s4 \<Rightarrow> Inr (True, s4)))
          else if tid \<notin> user_submitted_tasks s1 then
            Inr (False, emit (Log ERROR ''only user submitted task is cancelable'' []) s1)
          else if state cancel_task_status \<noteq> Queued then
            Inr (False,
                 emit (Log ERROR ''Unable to cancel task [%s] as it is not a Queued Task'' [tid])
                   s1)
          else
            (case remove_self_generated (fleet_name cancel_task_status)
                    (active_dispatch_tasks s1) s1 of
               Inl f \<Rightarrow> Inl f
             | Inr s2 \<Rightarrow>
                 (case referenced_status tid s2 of
                    Inl f \<Rightarrow> Inl f
                  | Inr st \<Rightarrow>
                      Inr (client_ack, emit (Action_cancel_task (task_profile st)) s2))))"

definition get_task_state :: "TaskID \<Rightarrow> Dispatcher \<Rightarrow> State option" where
  "get_task_state tid s =
     (case map_of (active_dispatch_tasks s) tid of
        Some st \<Rightarrow> Some (state st)
      | None \<Rightarrow>
          (case map_of (terminal_dispatch_tasks s) tid of
             Some st \<Rightarrow> Some (state st)
           | None \<Rightarrow> None))"

definition pop_bidding_queue :: "Dispatcher \<Rightarrow> fault + Dispatcher" where
  "pop_bidding_queue s =
     (case queue_bidding_tasks s of
        [] \<Rightarrow> Inl Pop_empty_queue
      | front # rest \<Rightarrow> Inr (s\<lparr>queue_bidding_tasks := rest\<rparr>))"

text \<open>
  Without a winner the observer is called with the reference \<^verbatim>\<open>pending_task_status\<close>
  after \<^verbatim>\<open>terminate_task\<close>, before the queue is popped. With a winner the
  reference is read for \<^verbatim>\<open>add_task\<close> after the removal loop, which may have erased
  the awarded entry itself when its id is not in the user-submitted set.
\<close>

definition receive_bidding_winner_cb ::
  "TaskID \<Rightarrow> Submission option \<Rightarrow> Dispatcher \<Rightarrow> fault + Dispatcher" where
  "receive_bidding_winner_cb tid winner s =
     (case map_of (active_dispatch_tasks s) tid of
        None \<Rightarrow> Inr s
      | Some pending_task_status \<Rightarrow>
          (case winner of
             None \<Rightarrow>
               let s1 = emit (Log WARN
                          ''Dispatcher Bidding Result: task [%s] has no submissions during bidding, Task Failed''
                          [tid]) s;
                   failed = pending_task_status\<lparr>state := Failed\<rparr>;
                   s2 = s1\<lparr>active_dispatch_tasks :=
                            AList.map_entry tid (\<lambda>st. st\<lparr>state := Failed\<rparr>)
                              (active_dispatch_tasks s1)\<rparr>
               in (case terminate_task failed s2 of
                     Inl f \<Rightarrow> Inl f
                   | Inr s3 \<Rightarrow>
                       (case notify_referenced tid s3 of
                          Inl f \<Rightarrow> Inl f
                        | Inr s4 \<Rightarrow>
                            (case pop_bidding_queue s4 of
                               Inl f \<Rightarrow> Inl f
                             | Inr s5 \<Rightarrow> Inr (start_next_bidding s5))))
           | Some w \<Rightarrow>
               let s1 = s\<lparr>active_dispatch_tasks :=
                          AList.map_entry tid (\<lambda>st. st\<lparr>fleet_name := winner_fleet_name w\<rparr>)
                            (active_dispatch_tasks s)\<rparr>;
                   s2 = emit (Log INFO
                          ''Dispatcher Bidding Result: task [%s] is accepted by fleet adapter [%s]''
                          [tid, winner_fleet_name w]) s1
               in (case remove_self_generated (winner_fleet_name w)
                         (active_dispatch_tasks s2) s2 of
                     Inl f \<Rightarrow> Inl f
                   | Inr s3 \<Rightarrow>
                       (case referenced_status tid s3 of
                          Inl f \<Rightarrow> Inl f
                        | Inr st \<Rightarrow>
                            Inr (emit (Action_add_task (winner_fleet_name w)
                                         (task_profile st) st) s3)))))"

text \<open>
  \<^verbatim>\<open>Dispatcher::on_change\<close> stores the callback it is given; the argument says whether
  that callback is callable.
\<close>

definition set_on_change :: "bool \<Rightarrow> Dispatcher \<Rightarrow> Dispatcher" where
  "set_on_change callable s = s\<lparr>on_change_fn := callable\<rparr>"

text \<open>The state of a freshly made dispatcher with the given parameters.\<close>

definition make_dispatcher :: "real \<Rightarrow> int \<Rightarrow> Dispatcher" where
  "make_dispatcher window max_size =
     \<lparr>queue_bidding_tasks = [], active_dispatch_tasks = [], terminal_dispatch_tasks = [],
      user_submitted_tasks = {}, task_counter = 0, bidding_time_window = window,
      terminated_tasks_max_size = max_size, on_change_fn = False, events = []\<rparr>"

section \<open>Fleet adapter: dispatch requests\<close>

text \<open>
  \<^verbatim>\<open>FleetUpdateHandle::Implementation::dispatch_request_cb\<close> with the functions it calls.
  The task planner, the task managers and the message types are outside the source at
  hand: the planner is a pair of functions passed in, a task manager is the record of what
  its observers return (\<^verbatim>\<open>get_executed_tasks\<close>, \<^verbatim>\<open>requests\<close>,
  \<^verbatim>\<open>expected_finish_state\<close>) and of the queue last given to \<^verbatim>\<open>set_queue\<close>.
  The method of a request is compared with the constants \<^verbatim>\<open>ADD\<close> and \<^verbatim>\<open>CANCEL\<close> of
  the message type; any other value of the field is \<open>Unsupported\<close>.
\<close>

record Request =
  request_id :: string
  earliest_start_time :: Time

record RobotState =
  waypoint :: nat
  finish_time :: Time
  battery_soc :: real

record Assignment =
  assignment_request :: Request
  deployment_time :: Time
  finish_state :: RobotState

type_synonym Assignments = "Assignment list list"

datatype TaskPlannerError = low_battery | limited_capacity | other_error

record TaskPlanner =
  plan :: "Time \<Rightarrow> RobotState list \<Rightarrow> Request list \<Rightarrow> TaskPlannerError + Assignments"
  compute_cost :: "Assignments \<Rightarrow> real"

record TaskManager =
  executed_tasks :: "string list"
  requests :: "Request list"
  expected_finish_state :: RobotState
  queue :: "Assignment list"

datatype DispatchMethod = ADD | CANCEL | Unsupported nat

record DispatchRequest =
  request_fleet_name :: string
  request_task_profile :: TaskProfile
  request_method :: DispatchMethod

record DispatchAck =
  dispatch_request :: DispatchRequest
  ack_success :: bool

datatype fleet_event =
    Fleet_log severity string "string list"
  | Publish_dispatch_ack DispatchAck

record Fleet =
  name :: string
  task_managers :: "TaskManager list"
  bid_notice_assignments :: "string \<rightharpoonup> Assignments"
  generated_requests :: "string \<rightharpoonup> Request"
  assigned_requests :: "string \<rightharpoonup> Request"
  cancelled_task_ids :: "string set"
  task_profile_map :: "string \<rightharpoonup> TaskProfile"
  current_assignment_cost :: real
  fleet_events :: "fleet_event list"

definition fleet_emit :: "fleet_event \<Rightarrow> Fleet \<Rightarrow> Fleet" where
  "fleet_emit e s = s\<lparr>fleet_events := fleet_events s @ [e]\<rparr>"

definition all_executed_tasks :: "Fleet \<Rightarrow> string set" where
  "all_executed_tasks s = (\<Union>mgr \<in> set (task_managers s). set (executed_tasks mgr))"

definition is_valid_assignments :: "Assignments \<Rightarrow> Fleet \<Rightarrow> bool" where
  "is_valid_assignments assignments s =
     (\<forall>agent \<in> set assignments. \<forall>a \<in> set agent.
        request_id (assignment_request a) \<notin> all_executed_tasks s)"

text \<open>The request to ignore: the scan keeps the last position whose id matches.\<close>

fun erase_first :: "('a \<Rightarrow> bool) \<Rightarrow> 'a list \<Rightarrow> 'a list" where
  "erase_first P [] = []"
| "erase_first P (x # xs) = (if P x then xs else x # erase_first P xs)"

definition erase_last :: "('a \<Rightarrow> bool) \<Rightarrow> 'a list \<Rightarrow> 'a list" where
  "erase_last P xs = rev (erase_first P (rev xs))"

definition allocate_tasks ::
  "TaskPlanner \<Rightarrow> Time \<Rightarrow> Request option \<Rightarrow> Request option \<Rightarrow> Fleet
     \<Rightarrow> Assignments option \<times> Fleet" where
  "allocate_tasks task_planner now new_request ignore_request s =
     (let tid = (case new_request of None \<Rightarrow> [] | Some r \<Rightarrow> request_id r);
          states = map expected_finish_state (task_managers s);
          pending0 = (case new_request of None \<Rightarrow> [] | Some r \<Rightarrow> [r])
                       @ concat (map requests (task_managers s));
          (pending_requests, s1) =
            (case ignore_request of
               None \<Rightarrow> (pending0, s)
             | Some ig \<Rightarrow>
                 if list_ex (\<lambda>r. request_id r = request_id ig) pending0 then
                   (erase_last (\<lambda>r. request_id r = request_id ig) pending0,
                    fleet_emit (Fleet_log INFO
                      ''Request with task_id:[%s] will be ignored during task allocation.''
                      [request_id ig]) s)
                 else
                   (pending0,
                    fleet_emit (Fleet_log WARN
                      ''Request with task_id:[%s] is not present in any of the task queues.''
                      [request_id ig]) s));
          s2 = fleet_emit (Fleet_log INFO ''Planning for [%ld] robot(s) and [%ld] request(s)''
                 [to_string (length states), to_string (length pending_requests)]) s1
      in case plan task_planner now states pending_requests of
           Inl error \<Rightarrow>
             (None,
              fleet_emit (Fleet_log ERROR
                (if error = low_battery then
                   ''[TaskPlanner] Failed to compute assignments for task_id:[%s] due to insufficient initial battery charge for all robots in this fleet.''
                 else if error = limited_capacity then
                   ''[TaskPlanner] Failed to compute assignments for task_id:[%s] due to insufficient battery capacity to accommodate one or more requests by any of the robots in this fleet.''
                 else ''[TaskPlanner] Failed to compute assignments for task_id:[%s]'')
                [tid]) s2)
         | Inr assignments \<Rightarrow>
             if assignments = [] then
               (None,
                fleet_emit (Fleet_log ERROR
                  ''[TaskPlanner] Failed to compute assignments for task_id:[%s]'' [tid]) s2)
             else (Some assignments, s2))"

text \<open>
  The loop over the task managers reads \<^verbatim>\<open>assignments[index]\<close> without a bounds check.
\<close>

fun set_queues :: "TaskManager list \<Rightarrow> Assignments \<Rightarrow> fault + TaskManager list" where
  "set_queues [] rows = Inr []"
| "set_queues (t # ts) [] = Inl Index_out_of_range"
| "set_queues (t # ts) (row # rows) =
     (case set_queues ts rows of
        Inl f \<Rightarrow> Inl f
      | Inr ts' \<Rightarrow> Inr (t\<lparr>queue := row\<rparr> # ts'))"

definition publish_ack :: "DispatchRequest \<Rightarrow> bool \<Rightarrow> Fleet \<Rightarrow> Fleet" where
  "publish_ack msg ok s =
     fleet_emit (Publish_dispatch_ack \<lparr>dispatch_request = msg, ack_success = ok\<rparr>) s"

definition dispatch_add ::
  "TaskPlanner \<Rightarrow> Time \<Rightarrow> DispatchRequest \<Rightarrow> Fleet \<Rightarrow> fault + Fleet" where
  "dispatch_add task_planner now msg s =
     (let tid = task_id (request_task_profile msg) in
      case bid_notice_assignments s tid of
        None \<Rightarrow>
          Inr (publish_ack msg False (fleet_emit (Fleet_log WARN
                 ''Received DispatchRequest for task_id:[%s] before receiving BidNotice. This request will be ignored.''
                 [tid]) s))
      | Some assignments \<Rightarrow>
          let s1 = fleet_emit (Fleet_log INFO
                     ''Bid for task_id:[%s] awarded to fleet [%s]. Processing request...''
                     [tid, name s]) s
          in if length assignments \<noteq> length (task_managers s1) then
               Inr (publish_ack msg False (fleet_emit (Fleet_log ERROR
                      ''The number of available robots does not match that in the assignments for task_id:[%s]. This request will be ignored.''
                      [tid]) s1))
             else
               (case generated_requests s1 tid of
                  None \<Rightarrow>
                    Inr (publish_ack msg False (fleet_emit (Fleet_log ERROR
                           ''Unable to find generated request for task_id:[%s]. This request will be ignored.''
                           [tid]) s1))
                | Some request \<Rightarrow>
                    let (replanned, s2) =
                          (if is_valid_assignments assignments s1 then (Some assignments, s1)
                           else allocate_tasks task_planner now (Some request) None s1)
                    in (case replanned of
                          None \<Rightarrow>
                            Inr (publish_ack msg False (fleet_emit (Fleet_log WARN
                                   ''Unable to replan assignments when accommodating task_id:[%s]. This request will be ignored.''
                                   [tid]) s2))
                        | Some assignments' \<Rightarrow>
                            let s3 = s2\<lparr>bid_notice_assignments :=
                                          (bid_notice_assignments s2)(tid \<mapsto> assignments')\<rparr>
                            in (case set_queues (task_managers s3) assignments' of
                                  Inl f \<Rightarrow> Inl f
                                | Inr mgrs \<Rightarrow>
                                    let s4 = s3\<lparr>task_managers := mgrs,
                                                current_assignment_cost :=
                                                  compute_cost task_planner assignments',
                                                assigned_requests :=
                                                  (if tid \<in> dom (assigned_requests s3)
                                                   then assigned_requests s3
                                                   else (assigned_requests s3)(tid \<mapsto> request))\<rparr>
                                    in Inr (fleet_emit (Fleet_log INFO
                                              ''Assignments updated for robots in fleet [%s] to accommodate task_id:[%s]''
                                              [name s4, tid])
                                            (publish_ack msg True s4))))))"

definition dispatch_cancel ::
  "TaskPlanner \<Rightarrow> Time \<Rightarrow> DispatchRequest \<Rightarrow> Fleet \<Rightarrow> fault + Fleet" where
  "dispatch_cancel task_planner now msg s =
     (let tid = task_id (request_task_profile msg) in
      if tid \<in> cancelled_task_ids s then
        Inr (publish_ack msg True (fleet_emit (Fleet_log WARN
               ''Request with task_id:[%s] has already been cancelled.'' [tid]) s))
      else
        (case assigned_requests s tid of
           None \<Rightarrow>
             Inr (publish_ack msg False (fleet_emit (Fleet_log WARN
                    ''Unable to cancel task with task_id:[%s] as it is not assigned to fleet:[%s].''
                    [tid, name s]) s))
         | Some request_to_cancel \<Rightarrow>
             if tid \<in> all_executed_tasks s then
               Inr (publish_ack msg False (fleet_emit (Fleet_log WARN
                      ''Unable to cancel active task with task_id:[%s]. Only queued tasks may be cancelled.''
                      [tid]) s))
             else
               (case allocate_tasks task_planner now None (Some request_to_cancel) s of
                  (None, s1) \<Rightarrow>
                    Inr (publish_ack msg False (fleet_emit (Fleet_log WARN
                           ''Unable to re-plan assignments when cancelling task with task_id:[%s]''
                           [tid]) s1))
                | (Some assignments, s1) \<Rightarrow>
                    (case set_queues (task_managers s1) assignments of
                       Inl f \<Rightarrow> Inl f
                     | Inr mgrs \<Rightarrow>
                         let s2 = s1\<lparr>task_managers := mgrs,
                                     current_assignment_cost :=
                                       compute_cost task_planner assignments\<rparr>;
                             s3 = publish_ack msg True s2;
                             s4 = s3\<lparr>cancelled_task_ids := insert tid (cancelled_task_ids s3)\<rparr>
                         in Inr (fleet_emit (Fleet_log INFO
                                   ''Task with task_id:[%s] has successfully been cancelled. Assignments updated for robots in fleet [%s].''
                                   [tid, name s4]) s4)))))"

definition dispatch_request_cb ::
  "TaskPlanner \<Rightarrow> Time \<Rightarrow> DispatchRequest \<Rightarrow> Fleet \<Rightarrow> fault + Fleet" where
  "dispatch_request_cb task_planner now msg s =
     (if request_fleet_name msg \<noteq> name s then Inr s
      else
        (case request_method msg of
           ADD \<Rightarrow> dispatch_add task_planner now msg s
         | CANCEL \<Rightarrow> dispatch_cancel task_planner now msg s
         | Unsupported m \<Rightarrow>
             Inr (fleet_emit (Fleet_log WARN
                    ''Received DispatchRequest for task_id:[%s] with invalid method. Only ADD and CANCEL methods are supported. This request will be ignored.''
                    [task_id (request_task_profile msg)]) s)))"

text \<open>The acknowledgements published so far, oldest first.\<close>

fun published_acks :: "fleet_event list \<Rightarrow> DispatchAck list" where
  "published_acks [] = []"
| "published_acks (Publish_dispatch_ack a # es) = a # published_acks es"
| "published_acks (e # es) = published_acks es"

section \<open>Runs of the dispatcher\<close>

text \<open>
  The dispatcher runs on one executor thread: an execution is a sequence of completed
  calls, each started from the state the previous one left. A run stops at the first
  call whose behaviour is undefined.
  The action client receives the shared status of a task with \<^verbatim>\<open>add_task\<close> and
  writes the fleet's reports (state and fleet name) through that pointer before it calls
  back; \<open>Client_write\<close> is that write on the entry of the active table.
  \<open>On_change_call\<close> is a call of \<^verbatim>\<open>Dispatcher::on_change\<close>, which registers the
  observer.
\<close>

fun terminate_tasks :: "TaskStatus list \<Rightarrow> Dispatcher \<Rightarrow> fault + Dispatcher" where
  "terminate_tasks [] s = Inr s"
| "terminate_tasks (st # sts) s =
     (case terminate_task st s of
        Inl f \<Rightarrow> Inl f
      | Inr s' \<Rightarrow> terminate_tasks sts s')"

datatype call =
    Submit Time TaskDescription
  | Cancel TaskID bool
  | Bidding_winner TaskID "Submission option"
  | Status TaskStatus
  | Terminate TaskStatus
  | Client_write TaskStatus
  | On_change_call bool

fun step :: "call \<Rightarrow> Dispatcher \<Rightarrow> fault + Dispatcher" where
  "step (Submit now descr) s = Inr (snd (submit_task_srv now descr s))"
| "step (Cancel tid client_ack) s =
     (case cancel_task tid client_ack s of
        Inl f \<Rightarrow> Inl f
      | Inr (ok, s') \<Rightarrow> Inr s')"
| "step (Bidding_winner tid winner) s = receive_bidding_winner_cb tid winner s"
| "step (Status status) s = Inr (task_status_cb status s)"
| "step (Terminate status) s = terminate_task status s"
| "step (Client_write status) s =
     Inr (s\<lparr>active_dispatch_tasks :=
             AList.map_entry (task_id (task_profile status))
               (\<lambda>st. st\<lparr>fleet_name := fleet_name status, state := state status\<rparr>)
               (active_dispatch_tasks s)\<rparr>)"
| "step (On_change_call callable) s = Inr (set_on_change callable s)"

fun run :: "call list \<Rightarrow> Dispatcher \<Rightarrow> fault + Dispatcher" where
  "run [] s = Inr s"
| "run (c # cs) s =
     (case step c s of
        Inl f \<Rightarrow> Inl f
      | Inr s' \<Rightarrow> run cs s')"

text \<open>The ids minted so far, read off the log entries that \<^verbatim>\<open>submit_task\<close> writes.\<close>

fun minted_ids :: "event list \<Rightarrow> TaskID list" where
  "minted_ids [] = []"
| "minted_ids (Log sev fmt args # es) =
     (if fmt = ''Received Task Submission [%s]'' then args @ minted_ids es else minted_ids es)"
| "minted_ids (e # es) = minted_ids es"

text \<open>The auctions started so far, read off the calls of \<^verbatim>\<open>start_bidding\<close>.\<close>

fun started_biddings :: "event list \<Rightarrow> BidNotice list" where
  "started_biddings [] = []"
| "started_biddings (Start_bidding n # es) = n # started_biddings es"
| "started_biddings (e # es) = started_biddings es"

text \<open>The two kinds of event that \<^verbatim>\<open>terminate_task\<close> issues.\<close>

definition housekeeping :: "event \<Rightarrow> bool" where
  "housekeeping e =
     (case e of
        Publish_ongoing_tasks tasks \<Rightarrow> True
      | Log sev fmt args \<Rightarrow>
          fmt = ''Terminated tasks reached max size, remove earliest submited task''
      | _ \<Rightarrow> False)"

text \<open>Reading a decimal numeral back, used to show that \<open>to_string\<close> is injective.\<close>

definition is_digit :: "char \<Rightarrow> bool" where
  "is_digit c = (c \<in> set ''0123456789'')"

definition digit_val :: "char \<Rightarrow> nat" where
  "digit_val c = of_char c - 48"

definition decimal_value :: "string \<Rightarrow> nat" where
  "decimal_value ds = foldl (\<lambda>acc c. 10 * acc + digit_val c) 0 ds"

text \<open>An id of the form minted at a counter value below \<open>c\<close>.\<close>

definition minted_before :: "nat \<Rightarrow> TaskID \<Rightarrow> bool" where
  "minted_before c tid =
     (\<exists>t nm k. task_type_name t = Some nm \<and> k < c \<and> tid = nm @ to_string k)"

text \<open>
  The entries of a table are stored under the id of their own status: every insertion of
  the source uses \<^verbatim>\<open>task_profile.task_id\<close> as the key, and no two entries share a key.
\<close>

definition keyed_by_id :: "DispatchTasks \<Rightarrow> bool" where
  "keyed_by_id tasks =
     (distinct (map fst tasks) \<and> list_all (\<lambda>e. task_id (task_profile (snd e)) = fst e) tasks)"

definition tables_keyed :: "Dispatcher \<Rightarrow> bool" where
  "tables_keyed s =
     (keyed_by_id (active_dispatch_tasks s) \<and> keyed_by_id (terminal_dispatch_tasks s))"

text \<open>The test of the removal loop on one entry: not user-submitted, and of the fleet.\<close>

definition self_generated_of :: "string \<Rightarrow> Dispatcher \<Rightarrow> TaskID \<times> TaskStatus \<Rightarrow> bool" where
  "self_generated_of fleet s e = (fst e \<notin> user_submitted_tasks s \<and> fleet = fleet_name (snd e))"

text \<open>Shorthands for the concrete tasks used in examples.\<close>

definition clean_task :: TaskDescription where
  "clean_task = \<lparr>task_type = 4, start_time = 0, priority = 0\<rparr>"

definition status_of :: "TaskID \<Rightarrow> Time \<Rightarrow> string \<Rightarrow> State \<Rightarrow> TaskStatus" where
  "status_of tid t fleet st =
     \<lparr>fleet_name = fleet,
      task_profile = \<lparr>task_id = tid, submission_time = t, description = clean_task\<rparr>,
      state = st\<rparr>"

text \<open>
  A run in which the task submitted first terminates after two tasks submitted later:
  four submissions at times 1, 5, 6 and 7; the first wins its auction and is reported
  Queued by its fleet, the second and third find no bidder.
\<close>

definition late_finisher_calls :: "call list" where
  "late_finisher_calls =
     [Submit 1 clean_task, Submit 5 clean_task, Submit 6 clean_task, Submit 7 clean_task,
      Bidding_winner ''Clean0''
        (Some \<lparr>winner_fleet_name = ''fleetA'', winner_robot_name = ''r1''\<rparr>),
      Status (status_of ''Clean0'' 1 ''fleetA'' Queued),
      Bidding_winner ''Clean1'' None,
      Bidding_winner ''Clean2'' None]"

text \<open>The dispatcher after two submissions: both tasks pending, the first one in auction.\<close>

definition two_pending :: Dispatcher where
  "two_pending = projr (run [Submit 1 clean_task, Submit 5 clean_task] (make_dispatcher 2 100))"



text \<open>
  A run in which a task is won, reported Queued and Completed by its fleet, and
  terminated.
\<close>

definition completed_task_calls :: "call list" where
  "completed_task_calls =
     [Submit 1 clean_task,
      Bidding_winner ''Clean0''
        (Some \<lparr>winner_fleet_name = ''fleetA'', winner_robot_name = ''r1''\<rparr>),
      Client_write (status_of ''Clean0'' 1 ''fleetA'' Queued),
      Status (status_of ''Clean0'' 1 ''fleetA'' Queued),
      Client_write (status_of ''Clean0'' 1 ''fleetA'' Completed),
      Status (status_of ''Clean0'' 1 ''fleetA'' Completed),
      Terminate (status_of ''Clean0'' 1 ''fleetA'' Completed)]"

text \<open>
  A fleet of one robot that has executed one task and has another one queued, with a
  third task already cancelled, and a planner that gives every robot an empty queue.
\<close>

definition idle_planner :: TaskPlanner where
  "idle_planner =
     \<lparr>plan = (\<lambda>now states pending. Inr (map (\<lambda>st. []) states)),
      compute_cost = (\<lambda>assignments. 0)\<rparr>"

definition request_of :: "TaskID \<Rightarrow> Request" where
  "request_of tid = \<lparr>request_id = tid, earliest_start_time = 0\<rparr>"

definition example_fleet :: Fleet where
  "example_fleet =
     \<lparr>name = ''fleetA'',
      task_managers =
        [\<lparr>executed_tasks = [''Clean0''], requests = [request_of ''Clean1''],
          expected_finish_state = \<lparr>waypoint = 0, finish_time = 0, battery_soc = 1\<rparr>,
          queue = []\<rparr>],
      bid_notice_assignments = Map.empty,
      generated_requests = Map.empty,
      assigned_requests =
        [''Clean0'' \<mapsto> request_of ''Clean0'', ''Clean1'' \<mapsto> request_of ''Clean1'',
         ''Clean2'' \<mapsto> request_of ''Clean2''],
      cancelled_task_ids = {''Clean2''},
      task_profile_map = Map.empty,
      current_assignment_cost = 0,
      fleet_events = []\<rparr>"

definition dispatch_request_for :: "DispatchMethod \<Rightarrow> TaskID \<Rightarrow> DispatchRequest" where
  "dispatch_request_for m tid =
     \<lparr>request_fleet_name = ''fleetA'',
      request_task_profile = \<lparr>task_id = tid, submission_time = 0, description = clean_task\<rparr>,
      request_method = m\<rparr>"

section \<open>Evaluation of concrete calls\<close>

lemmas eval_defs = submit_task_srv_def submit_task_def emit_def on_change_def
  make_dispatcher_def to_string.simps digit_char_def size_t_max_def start_next_bidding_def
  publish_ongoing_tasks_def size_t_of_int_def capacity_reached_def find_rm_task_def
  evict_if_full_def terminate_task_def task_status_cb_def cancel_task_def get_task_state_def
  pop_bidding_queue_def receive_bidding_winner_cb_def is_terminated_def clean_task_def
  status_of_def remove_self_generated.simps referenced_status_def notify_referenced_def
  set_on_change_def Let_def

lemmas fleet_eval_defs = dispatch_request_cb_def dispatch_cancel_def dispatch_add_def
  allocate_tasks_def publish_ack_def fleet_emit_def all_executed_tasks_def
  is_valid_assignments_def erase_last_def idle_planner_def request_of_def example_fleet_def
  dispatch_request_for_def clean_task_def to_string.simps digit_char_def Let_def

lemma emit_fields:
  "active_dispatch_tasks (emit e s) = active_dispatch_tasks s"
  "terminal_dispatch_tasks (emit e s) = terminal_dispatch_tasks s"
  "user_submitted_tasks (emit e s) = user_submitted_tasks s"
  "queue_bidding_tasks (emit e s) = queue_bidding_tasks s"
  "task_counter (emit e s) = task_counter s"
  "on_change_fn (emit e s) = on_change_fn s"
  "terminated_tasks_max_size (emit e s) = terminated_tasks_max_size s"
  by (simp_all add: emit_def)

section \<open>Submission\<close>

text \<open>
  Claim C7. A submission whose task type is not one of the six known tags is answered with
  \<open>success = False\<close> and the message "Task type is invalid"; neither table, the set of
  user-submitted ids, the bidding queue nor the task counter changes, and the only call
  that leaves the dispatcher is the error log.
\<close>

theorem submit_task_invalid_type:
  "5 < task_type descr \<Longrightarrow>
   (case submit_task_srv now descr s of
      (response, s') \<Rightarrow>
        success response = False \<and> message response = ''Task type is invalid''
        \<and> active_dispatch_tasks s' = active_dispatch_tasks s
        \<and> terminal_dispatch_tasks s' = terminal_dispatch_tasks s
        \<and> user_submitted_tasks s' = user_submitted_tasks s
        \<and> queue_bidding_tasks s' = queue_bidding_tasks s
        \<and> task_counter s' = task_counter s
        \<and> events s' =
            events s @ [Log ERROR ''TaskType: %ld is invalid'' [to_string (task_type descr)]])"
  by (simp add: submit_task_srv_def submit_task_def emit_def)

theorem submit_task_invalid_type_witness:
  "5 < task_type \<lparr>task_type = 42, start_time = 0, priority = 0\<rparr>
   \<and> (case submit_task_srv 7 \<lparr>task_type = 42, start_time = 0, priority = 0\<rparr>
              (make_dispatcher 2 100) of
        (response, s') \<Rightarrow>
          success response = False \<and> message response = ''Task type is invalid''
          \<and> active_dispatch_tasks s' = [] \<and> terminal_dispatch_tasks s' = []
          \<and> user_submitted_tasks s' = {} \<and> queue_bidding_tasks s' = []
          \<and> task_counter s' = 0
          \<and> events s' = [Log ERROR ''TaskType: %ld is invalid'' [''42'']])"
  using submit_task_invalid_type
    [where descr = "\<lparr>task_type = 42, start_time = 0, priority = 0\<rparr>" and now = 7
       and s = "make_dispatcher 2 100"]
  by (simp add: make_dispatcher_def to_string.simps digit_char_def split: prod.splits)

section \<open>Termination and the eviction scan\<close>

lemma eviction_scan_mem: "eviction_scan rm xs = rm \<or> eviction_scan rm xs \<in> set xs"
  by (induction xs arbitrary: rm) auto

lemma eviction_scan_le_start: "entry_time (eviction_scan rm xs) \<le> entry_time rm"
proof (induction xs arbitrary: rm)
  case Nil
  then show ?case by simp
next
  case (Cons x xs)
  let ?rm' = "if entry_time x < entry_time rm then x else rm"
  have "entry_time (eviction_scan ?rm' xs) \<le> entry_time ?rm'" by (rule Cons.IH)
  moreover have "entry_time ?rm' \<le> entry_time rm" by simp
  ultimately show ?case by simp
qed

lemma eviction_scan_le_all:
  "e \<in> set xs \<Longrightarrow> entry_time (eviction_scan rm xs) \<le> entry_time e"
proof (induction xs arbitrary: rm)
  case Nil
  then show ?case by simp
next
  case (Cons x xs)
  let ?rm' = "if entry_time x < entry_time rm then x else rm"
  show ?case
  proof (cases "e = x")
    case True
    have "entry_time (eviction_scan ?rm' xs) \<le> entry_time ?rm'"
      by (rule eviction_scan_le_start)
    moreover have "entry_time ?rm' \<le> entry_time x" by simp
    ultimately show ?thesis using True by simp
  next
    case False
    then have "e \<in> set xs" using Cons.prems by simp
    then show ?thesis using Cons.IH by simp
  qed
qed

lemma find_rm_task_Inr:
  "2 \<le> length tasks \<Longrightarrow> \<exists>rm. find_rm_task tasks = Inr rm"
  by (cases tasks; cases "tl tasks") (auto simp: find_rm_task_def)

lemma find_rm_task_Inl:
  "length tasks < 2 \<Longrightarrow> find_rm_task tasks = Inl Past_the_end_iterator"
  by (cases tasks; cases "tl tasks") (auto simp: find_rm_task_def)

lemma find_rm_task_min:
  assumes "find_rm_task tasks = Inr rm"
  shows "rm \<in> set tasks \<and> (\<forall>e \<in> set tasks. entry_time rm \<le> entry_time e)"
proof -
  from assms obtain x y rest where t: "tasks = x # y # rest" and rm: "rm = eviction_scan y tasks"
    by (auto simp: find_rm_task_def split: list.splits)
  have "rm \<in> set tasks"
    using eviction_scan_mem[of y tasks] t rm by auto
  moreover have "\<forall>e \<in> set tasks. entry_time rm \<le> entry_time e"
    using eviction_scan_le_all rm by blast
  ultimately show ?thesis by simp
qed

lemma length_update_le: "length (AList.update k v xs) \<le> Suc (length xs)"
  by (induction xs) auto

lemma length_delete_mem: "e \<in> set xs \<Longrightarrow> length (AList.delete (fst e) xs) < length xs"
proof (induction xs)
  case Nil
  then show ?case by simp
next
  case (Cons x xs)
  have le: "length (AList.delete (fst e) xs) \<le> length xs"
    by (simp add: AList.delete_eq)
  show ?case
  proof (cases "fst x = fst e")
    case True
    then show ?thesis using le by (cases x) auto
  next
    case False
    then have "e \<in> set xs" using Cons.prems by auto
    then show ?thesis using Cons.IH False by (cases x) auto
  qed
qed

lemma capacity_publish [simp]:
  "capacity_reached (publish_ongoing_tasks s) = capacity_reached s"
  by (simp add: capacity_reached_def publish_ongoing_tasks_def emit_def)

lemma terminal_publish [simp]:
  "terminal_dispatch_tasks (publish_ongoing_tasks s) = terminal_dispatch_tasks s"
  by (simp add: publish_ongoing_tasks_def emit_def)

lemma evict_if_full_cases:
  "evict_if_full s =
     (if capacity_reached s then
        (if length (terminal_dispatch_tasks s) < 2 then Inl Past_the_end_iterator
         else Inr ((emit (Log WARN
                     ''Terminated tasks reached max size, remove earliest submited task'' []) s)
                  \<lparr>terminal_dispatch_tasks :=
                     AList.delete (fst (projr (find_rm_task (terminal_dispatch_tasks s))))
                       (terminal_dispatch_tasks s)\<rparr>))
      else Inr s)"
proof (cases "length (terminal_dispatch_tasks s) < 2")
  case True
  then show ?thesis by (simp add: evict_if_full_def find_rm_task_Inl)
next
  case False
  then obtain rm where "find_rm_task (terminal_dispatch_tasks s) = Inr rm"
    using find_rm_task_Inr[of "terminal_dispatch_tasks s"] by auto
  then show ?thesis using False by (simp add: evict_if_full_def)
qed

lemma terminate_task_defined:
  "is_terminated st \<Longrightarrow>
   (\<exists>s'. terminate_task st s = Inr s')
     = (capacity_reached s \<longrightarrow> 2 \<le> length (terminal_dispatch_tasks s))"
  by (auto simp: terminate_task_def evict_if_full_cases publish_ongoing_tasks_def emit_def
        capacity_reached_def Let_def split: sum.splits if_splits)


text \<open>
  Claim C10 (as amended). The eviction scan is defined only when the terminal table holds
  at least two entries at the moment the capacity test fires: a call of
  \<^verbatim>\<open>terminate_task\<close> with a terminal status returns exactly when the test does not
  fire or the table has two entries. With \<^verbatim>\<open>terminated_tasks_max_size\<close> 0 or 1 and
  exactly one entry in the table the call reads through the past-the-end iterator.
\<close>

theorem eviction_scan_needs_two_entries:
  assumes "is_terminated st"
  shows "((\<exists>s'. terminate_task st s = Inr s')
            = (capacity_reached s \<longrightarrow> 2 \<le> length (terminal_dispatch_tasks s)))
         \<and> (0 \<le> terminated_tasks_max_size s \<and> terminated_tasks_max_size s \<le> 1
              \<and> length (terminal_dispatch_tasks s) = 1
             \<longrightarrow> terminate_task st s = Inl Past_the_end_iterator)"
proof
  show "(\<exists>s'. terminate_task st s = Inr s')
          = (capacity_reached s \<longrightarrow> 2 \<le> length (terminal_dispatch_tasks s))"
    using assms by (rule terminate_task_defined)
next
  show "0 \<le> terminated_tasks_max_size s \<and> terminated_tasks_max_size s \<le> 1
          \<and> length (terminal_dispatch_tasks s) = 1
        \<longrightarrow> terminate_task st s = Inl Past_the_end_iterator"
  proof
    assume h: "0 \<le> terminated_tasks_max_size s \<and> terminated_tasks_max_size s \<le> 1
                 \<and> length (terminal_dispatch_tasks s) = 1"
    then have "terminated_tasks_max_size s = 0 \<or> terminated_tasks_max_size s = 1" by arith
    then have "capacity_reached s"
      using h by (auto simp: capacity_reached_def size_t_of_int_def)
    then show "terminate_task st s = Inl Past_the_end_iterator"
      using assms h by (simp add: terminate_task_def evict_if_full_cases)
  qed
qed

text \<open>The theorem at a table of one entry and a bound of 1.\<close>

theorem eviction_scan_needs_two_entries_witness:
  "is_terminated (status_of ''Loop1'' 9 [] Canceled)
   \<and> capacity_reached ((make_dispatcher 2 1)
         \<lparr>terminal_dispatch_tasks := [(''Clean0'', status_of ''Clean0'' 3 [] Failed)]\<rparr>)
   \<and> terminate_task (status_of ''Loop1'' 9 [] Canceled)
        ((make_dispatcher 2 1)
           \<lparr>terminal_dispatch_tasks := [(''Clean0'', status_of ''Clean0'' 3 [] Failed)]\<rparr>)
       = Inl Past_the_end_iterator"
  using eviction_scan_needs_two_entries
    [where st = "status_of ''Loop1'' 9 [] Canceled"
       and s = "(make_dispatcher 2 1)
         \<lparr>terminal_dispatch_tasks := [(''Clean0'', status_of ''Clean0'' 3 [] Failed)]\<rparr>"]
  by (simp add: is_terminated_def status_of_def make_dispatcher_def capacity_reached_def
        size_t_of_int_def)

text \<open>
  C10 as stated covers every bound up to 1. The bound -1 is converted to the unsigned
  value \<open>2 ^ 64 - 1\<close> by the comparison: with one entry in the table the test does not
  fire, no scan runs and the call returns.
\<close>

theorem negative_max_size_counterexample:
  "terminated_tasks_max_size ((make_dispatcher 2 (- 1))
       \<lparr>terminal_dispatch_tasks := [(''Clean0'', status_of ''Clean0'' 3 [] Failed)]\<rparr>) \<le> 1
   \<and> length (terminal_dispatch_tasks ((make_dispatcher 2 (- 1))
       \<lparr>terminal_dispatch_tasks := [(''Clean0'', status_of ''Clean0'' 3 [] Failed)]\<rparr>)) = 1
   \<and> terminate_task (status_of ''Loop1'' 9 [] Canceled)
        ((make_dispatcher 2 (- 1))
           \<lparr>terminal_dispatch_tasks := [(''Clean0'', status_of ''Clean0'' 3 [] Failed)]\<rparr>)
       = Inr ((make_dispatcher 2 (- 1))
           \<lparr>terminal_dispatch_tasks :=
              [(''Clean0'', status_of ''Clean0'' 3 [] Failed),
               (''Loop1'', status_of ''Loop1'' 9 [] Canceled)],
            events := [Publish_ongoing_tasks []]\<rparr>)"
  by (simp add: eval_defs)

text \<open>
  More generally, with a negative bound of 32 bits the test fires only at a table of at
  least \<open>2 ^ 64 - 2 ^ 31\<close> entries.
\<close>

lemma negative_bound_no_eviction:
  assumes "- (2 ^ 31) \<le> terminated_tasks_max_size s" "terminated_tasks_max_size s < 0"
    and "length (terminal_dispatch_tasks s) < 2 ^ 64 - 2 ^ 31"
  shows "\<not> capacity_reached s"
proof -
  let ?m = "terminated_tasks_max_size s"
  have "(?m + 2 ^ 64) mod 2 ^ 64 = ?m + 2 ^ 64"
    using assms(1,2) by (intro mod_pos_pos_trivial) simp_all
  then have "?m mod 2 ^ 64 = ?m + 2 ^ 64" by simp
  then have "size_t_of_int ?m = nat (?m + 2 ^ 64)" by (simp add: size_t_of_int_def)
  moreover have "int (length (terminal_dispatch_tasks s)) < ?m + 2 ^ 64"
    using assms(1,3) by (simp add: of_nat_less_iff[symmetric] del: of_nat_less_iff)
  ultimately show ?thesis by (simp add: capacity_reached_def)
qed

section \<open>The bound on the terminal table\<close>

lemma size_t_of_int_id: "0 \<le> m \<Longrightarrow> m < 2 ^ 64 \<Longrightarrow> size_t_of_int m = nat m"
  by (simp add: size_t_of_int_def)

lemma terminate_task_result:
  assumes "terminate_task st s = Inr s'"
  shows "terminated_tasks_max_size s' = terminated_tasks_max_size s
         \<and> terminal_dispatch_tasks s' =
             AList.update (task_id (task_profile st)) st
               (if capacity_reached s
                then AList.delete (fst (projr (find_rm_task (terminal_dispatch_tasks s))))
                       (terminal_dispatch_tasks s)
                else terminal_dispatch_tasks s)"
  using assms
  by (auto simp: terminate_task_def evict_if_full_cases Let_def emit_def publish_ongoing_tasks_def
        capacity_reached_def split: if_splits)

lemma terminate_task_keeps_bound:
  assumes m: "2 \<le> terminated_tasks_max_size s" "terminated_tasks_max_size s < 2 ^ 64"
    and len: "length (terminal_dispatch_tasks s) \<le> nat (terminated_tasks_max_size s)"
    and st: "is_terminated st"
  shows "\<exists>s'. terminate_task st s = Inr s'
           \<and> terminated_tasks_max_size s' = terminated_tasks_max_size s
           \<and> length (terminal_dispatch_tasks s') \<le> nat (terminated_tasks_max_size s)"
proof -
  let ?m = "terminated_tasks_max_size s"
  let ?T = "terminal_dispatch_tasks s"
  have cap: "capacity_reached s = (nat ?m \<le> length ?T)"
    using m by (simp add: capacity_reached_def size_t_of_int_id)
  have "capacity_reached s \<longrightarrow> 2 \<le> length ?T"
    using cap m by auto
  then obtain s' where s': "terminate_task st s = Inr s'"
    using terminate_task_defined[OF st, of s] by auto
  note res = terminate_task_result[OF s']
  have "length (terminal_dispatch_tasks s') \<le> nat ?m"
  proof (cases "capacity_reached s")
    case True
    then have "2 \<le> length ?T" using cap m by auto
    then obtain rm where rm: "find_rm_task ?T = Inr rm"
      using find_rm_task_Inr by blast
    then have "rm \<in> set ?T" using find_rm_task_min by blast
    then have "length (AList.delete (fst rm) ?T) < length ?T"
      by (rule length_delete_mem)
    then have "length (AList.update (task_id (task_profile st)) st (AList.delete (fst rm) ?T))
                 \<le> length ?T"
      using length_update_le[of "task_id (task_profile st)" st "AList.delete (fst rm) ?T"]
      by linarith
    then show ?thesis using res True rm len by simp
  next
    case False
    then have "length ?T < nat ?m" using cap by simp
    then have "length (AList.update (task_id (task_profile st)) st ?T) \<le> nat ?m"
      using length_update_le[of "task_id (task_profile st)" st ?T] by linarith
    then show ?thesis using res False by simp
  qed
  then show ?thesis using s' res by simp
qed

lemma terminate_tasks_keep_bound:
  assumes "2 \<le> terminated_tasks_max_size s" "terminated_tasks_max_size s < 2 ^ 64"
    and "length (terminal_dispatch_tasks s) \<le> nat (terminated_tasks_max_size s)"
    and "list_all is_terminated sts"
  shows "\<exists>s'. terminate_tasks sts s = Inr s'
           \<and> terminated_tasks_max_size s' = terminated_tasks_max_size s
           \<and> length (terminal_dispatch_tasks s') \<le> nat (terminated_tasks_max_size s)"
  using assms
proof (induction sts arbitrary: s)
  case Nil
  then show ?case by simp
next
  case (Cons st sts)
  from Cons.prems obtain s1 where s1: "terminate_task st s = Inr s1"
    "terminated_tasks_max_size s1 = terminated_tasks_max_size s"
    "length (terminal_dispatch_tasks s1) \<le> nat (terminated_tasks_max_size s)"
    using terminate_task_keeps_bound[of s st] by auto
  have "\<exists>s'. terminate_tasks sts s1 = Inr s'
           \<and> terminated_tasks_max_size s' = terminated_tasks_max_size s1
           \<and> length (terminal_dispatch_tasks s') \<le> nat (terminated_tasks_max_size s1)"
    using Cons.prems s1 by (intro Cons.IH) auto
  then show ?case using s1 by auto
qed

text \<open>
  Claim C4 (as amended). With a bound of at least two and a table that starts within the
  bound, every sequence of terminations is carried out, and the terminal table never holds
  more than \<^verbatim>\<open>terminated_tasks_max_size\<close> entries. Whenever the table is at capacity,
  the entry that the next termination removes is an entry of the table whose submission
  time is minimal among all entries present, and the table after that termination is the
  old one without that entry and with the new status stored.
\<close>

theorem terminal_table_bounded:
  assumes "2 \<le> terminated_tasks_max_size s" "terminated_tasks_max_size s < 2 ^ 31"
    and "length (terminal_dispatch_tasks s) \<le> nat (terminated_tasks_max_size s)"
    and "list_all is_terminated sts"
  shows "\<exists>s'. terminate_tasks sts s = Inr s'
           \<and> length (terminal_dispatch_tasks s') \<le> nat (terminated_tasks_max_size s)
           \<and> (capacity_reached s' \<longrightarrow>
                (\<exists>rm. find_rm_task (terminal_dispatch_tasks s') = Inr rm
                   \<and> rm \<in> set (terminal_dispatch_tasks s')
                   \<and> (\<forall>e \<in> set (terminal_dispatch_tasks s'). entry_time rm \<le> entry_time e)
                   \<and> (\<forall>st. is_terminated st \<longrightarrow>
                          (\<exists>s''. terminate_task st s' = Inr s''
                             \<and> terminal_dispatch_tasks s'' =
                                 AList.update (task_id (task_profile st)) st
                                   (AList.delete (fst rm) (terminal_dispatch_tasks s'))))))"
proof -
  have lt: "terminated_tasks_max_size s < 2 ^ 64"
    using assms(2) by simp
  obtain s' where s': "terminate_tasks sts s = Inr s'"
    "terminated_tasks_max_size s' = terminated_tasks_max_size s"
    "length (terminal_dispatch_tasks s') \<le> nat (terminated_tasks_max_size s)"
    using terminate_tasks_keep_bound[OF assms(1) lt assms(3) assms(4)] by auto
  have "capacity_reached s' \<longrightarrow>
          (\<exists>rm. find_rm_task (terminal_dispatch_tasks s') = Inr rm
             \<and> rm \<in> set (terminal_dispatch_tasks s')
             \<and> (\<forall>e \<in> set (terminal_dispatch_tasks s'). entry_time rm \<le> entry_time e)
             \<and> (\<forall>st. is_terminated st \<longrightarrow>
                    (\<exists>s''. terminate_task st s' = Inr s''
                       \<and> terminal_dispatch_tasks s'' =
                           AList.update (task_id (task_profile st)) st
                             (AList.delete (fst rm) (terminal_dispatch_tasks s')))))"
  proof
    assume cap: "capacity_reached s'"
    then have "nat (terminated_tasks_max_size s) \<le> length (terminal_dispatch_tasks s')"
      using s'(2) assms(1) lt by (simp add: capacity_reached_def size_t_of_int_id)
    then have two: "2 \<le> length (terminal_dispatch_tasks s')"
      using assms(1) by linarith
    then obtain rm where rm: "find_rm_task (terminal_dispatch_tasks s') = Inr rm"
      using find_rm_task_Inr by blast
    have "\<exists>s''. terminate_task st s' = Inr s''
             \<and> terminal_dispatch_tasks s'' =
                 AList.update (task_id (task_profile st)) st
                   (AList.delete (fst rm) (terminal_dispatch_tasks s'))"
      if tst: "is_terminated st" for st
    proof -
      obtain s'' where s'': "terminate_task st s' = Inr s''"
        using terminate_task_defined[OF tst, of "s'"] two by auto
      then show ?thesis
        using terminate_task_result[OF s''] cap rm by simp
    qed
    then show "\<exists>rm. find_rm_task (terminal_dispatch_tasks s') = Inr rm
             \<and> rm \<in> set (terminal_dispatch_tasks s')
             \<and> (\<forall>e \<in> set (terminal_dispatch_tasks s'). entry_time rm \<le> entry_time e)
             \<and> (\<forall>st. is_terminated st \<longrightarrow>
                    (\<exists>s''. terminate_task st s' = Inr s''
                       \<and> terminal_dispatch_tasks s'' =
                           AList.update (task_id (task_profile st)) st
                             (AList.delete (fst rm) (terminal_dispatch_tasks s'))))"
      using rm find_rm_task_min[OF rm] by blast
  qed
  then show ?thesis using s' by blast
qed


text \<open>
  The theorem at three terminations into an empty table with bound 2: the third one
  removed the older of the first two, and the task to go next is the remaining oldest.
\<close>

theorem terminal_table_bounded_witness:
  "2 \<le> terminated_tasks_max_size (make_dispatcher 2 2)
   \<and> terminated_tasks_max_size (make_dispatcher 2 2) < 2 ^ 31
   \<and> length (terminal_dispatch_tasks (make_dispatcher 2 2))
        \<le> nat (terminated_tasks_max_size (make_dispatcher 2 2))
   \<and> list_all is_terminated
        [status_of ''Clean1'' 5 [] Failed, status_of ''Clean2'' 6 [] Failed,
         status_of ''Clean0'' 1 ''fleetA'' Completed]
   \<and> (\<exists>s'. terminate_tasks
               [status_of ''Clean1'' 5 [] Failed, status_of ''Clean2'' 6 [] Failed,
                status_of ''Clean0'' 1 ''fleetA'' Completed] (make_dispatcher 2 2) = Inr s'
          \<and> length (terminal_dispatch_tasks s') \<le> 2
          \<and> capacity_reached s'
          \<and> find_rm_task (terminal_dispatch_tasks s')
              = Inr (''Clean0'', status_of ''Clean0'' 1 ''fleetA'' Completed))"
  using terminal_table_bounded
    [where s = "make_dispatcher 2 2"
       and sts = "[status_of ''Clean1'' 5 [] Failed, status_of ''Clean2'' 6 [] Failed,
                   status_of ''Clean0'' 1 ''fleetA'' Completed]"]
  by (simp add: eval_defs)

text \<open>
  C4 as stated also says that evictions follow non-decreasing submission time. In the run
  below the terminal table is full with the tasks submitted at 5 and 6 when the task
  submitted at 1 completes: that termination evicts the entry of time 5, and the next one
  evicts the entry of time 1 (at each of the two moments the capacity check holds and the
  scan selects the entry shown). With a negative bound the table holds more entries than
  the bound after the first termination.
\<close>

theorem eviction_order_counterexample:
  "(case run late_finisher_calls (make_dispatcher 2 2) of
      Inl f \<Rightarrow> False
    | Inr s1 \<Rightarrow>
        map (\<lambda>e. (fst e, entry_time e)) (terminal_dispatch_tasks s1)
          = [(''Clean1'', 5), (''Clean2'', 6)]
        \<and> capacity_reached s1
        \<and> find_rm_task (terminal_dispatch_tasks s1)
            = Inr (''Clean1'', status_of ''Clean1'' 5 [] Failed)
        \<and> (case terminate_task (status_of ''Clean0'' 1 ''fleetA'' Completed) s1 of
             Inl f \<Rightarrow> False
           | Inr s2 \<Rightarrow>
               map (\<lambda>e. (fst e, entry_time e)) (terminal_dispatch_tasks s2)
                 = [(''Clean2'', 6), (''Clean0'', 1)]
               \<and> capacity_reached s2
               \<and> find_rm_task (terminal_dispatch_tasks s2)
                   = Inr (''Clean0'', status_of ''Clean0'' 1 ''fleetA'' Completed)
               \<and> (case receive_bidding_winner_cb ''Clean3'' None s2 of
                    Inl f \<Rightarrow> False
                  | Inr s3 \<Rightarrow>
                      map (\<lambda>e. (fst e, entry_time e)) (terminal_dispatch_tasks s3)
                        = [(''Clean2'', 6), (''Clean3'', 7)])))
   \<and> (case terminate_task (status_of ''Clean0'' 1 [] Failed) (make_dispatcher 2 (- 1)) of
        Inl f \<Rightarrow> False
      | Inr s1 \<Rightarrow>
          length (terminal_dispatch_tasks s1) = 1 \<and> terminated_tasks_max_size s1 = - 1)"
  by (simp add: eval_defs late_finisher_calls_def)

section \<open>Removal of self-generated tasks\<close>

lemma keyed_by_id_Cons:
  "keyed_by_id (e # es) =
     (fst e \<notin> fst ` set es \<and> task_id (task_profile (snd e)) = fst e \<and> keyed_by_id es)"
  by (auto simp: keyed_by_id_def)

lemma delete_map_entry: "AList.delete k (AList.map_entry k f xs) = AList.delete k xs"
  by (induction xs) auto

lemma terminate_task_frame:
  assumes "terminate_task st s = Inr s'"
  shows "active_dispatch_tasks s' = AList.delete (task_id (task_profile st)) (active_dispatch_tasks s)"
    and "user_submitted_tasks s' = user_submitted_tasks s - {task_id (task_profile st)}"
    and "queue_bidding_tasks s' = queue_bidding_tasks s"
    and "task_counter s' = task_counter s"
    and "on_change_fn s' = on_change_fn s"
    and "bidding_time_window s' = bidding_time_window s"
  using assms
  by (auto simp: terminate_task_def evict_if_full_cases Let_def emit_def publish_ongoing_tasks_def
        split: if_splits)

lemma terminate_task_safe:
  assumes "is_terminated st" "2 \<le> terminated_tasks_max_size s" "terminated_tasks_max_size s < 2 ^ 64"
  shows "\<exists>s'. terminate_task st s = Inr s'"
proof -
  have "capacity_reached s \<longrightarrow> 2 \<le> length (terminal_dispatch_tasks s)"
    using assms(2,3) by (auto simp: capacity_reached_def size_t_of_int_id)
  then show ?thesis using terminate_task_defined[OF assms(1), of s] by simp
qed

lemma self_generated_of_cong:
  "user_submitted_tasks s' = user_submitted_tasks s \<Longrightarrow>
   self_generated_of fleet s' = self_generated_of fleet s"
  by (auto simp: self_generated_of_def fun_eq_iff)

lemma remove_self_generated_kept:
  "\<not> self_generated_of fleet s it \<Longrightarrow>
   remove_self_generated fleet (it # rest) s = remove_self_generated fleet rest s"
  by (auto simp: self_generated_of_def remove_self_generated.simps)

lemma remove_self_generated_swept:
  assumes "keyed_by_id (it # rest)" "self_generated_of fleet s it"
    and "terminate_task ((snd it)\<lparr>state := Canceled\<rparr>)
           (s\<lparr>active_dispatch_tasks :=
                AList.map_entry (fst it) (\<lambda>st. st\<lparr>state := Canceled\<rparr>)
                  (active_dispatch_tasks s)\<rparr>) = Inr s2"
  shows "remove_self_generated fleet (it # rest) s = remove_self_generated fleet rest s2"
    and "active_dispatch_tasks s2 = AList.delete (fst it) (active_dispatch_tasks s)"
    and "user_submitted_tasks s2 = user_submitted_tasks s"
    and "self_generated_of fleet s2 = self_generated_of fleet s"
proof -
  from assms(1) have k: "fst it \<notin> fst ` set rest"
    and tid: "task_id (task_profile (snd it)) = fst it"
    by (simp_all add: keyed_by_id_Cons)
  have nohd: "\<not> (rest \<noteq> [] \<and> fst (hd rest) = fst it)"
    using k by (cases rest) auto
  show "remove_self_generated fleet (it # rest) s = remove_self_generated fleet rest s2"
    using assms(2,3) nohd tid k
    by (auto simp: self_generated_of_def Let_def remove_self_generated.simps)
  note fr = terminate_task_frame[OF assms(3)]
  show "active_dispatch_tasks s2 = AList.delete (fst it) (active_dispatch_tasks s)"
    using fr(1) tid by (simp add: delete_map_entry)
  show U2: "user_submitted_tasks s2 = user_submitted_tasks s"
    using fr(2) assms(2) tid by (auto simp: self_generated_of_def)
  show "self_generated_of fleet s2 = self_generated_of fleet s"
    using U2 by (rule self_generated_of_cong)
qed

lemma remove_self_generated_spec:
  assumes "keyed_by_id todo" "2 \<le> terminated_tasks_max_size s"
    "terminated_tasks_max_size s < 2 ^ 64"
  shows "\<exists>s'. remove_self_generated fleet todo s = Inr s'
           \<and> active_dispatch_tasks s' =
               filter (\<lambda>e. fst e \<notin> fst ` set (filter (self_generated_of fleet s) todo))
                 (active_dispatch_tasks s)
           \<and> user_submitted_tasks s' = user_submitted_tasks s
           \<and> queue_bidding_tasks s' = queue_bidding_tasks s
           \<and> task_counter s' = task_counter s
           \<and> terminated_tasks_max_size s' = terminated_tasks_max_size s
           \<and> on_change_fn s' = on_change_fn s"
  using assms
proof (induction todo arbitrary: s)
  case Nil
  then show ?case by (simp add: remove_self_generated.simps)
next
  case (Cons it rest)
  from Cons.prems(1) have rest: "keyed_by_id rest"
    by (simp add: keyed_by_id_Cons)
  show ?case
  proof (cases "self_generated_of fleet s it")
    case False
    then show ?thesis
      using Cons.IH[OF rest Cons.prems(2) Cons.prems(3)]
      by (simp add: remove_self_generated_kept)
  next
    case True
    let ?canceled = "(snd it)\<lparr>state := Canceled\<rparr>"
    let ?s1 = "s\<lparr>active_dispatch_tasks :=
                   AList.map_entry (fst it) (\<lambda>st. st\<lparr>state := Canceled\<rparr>)
                     (active_dispatch_tasks s)\<rparr>"
    have "is_terminated ?canceled" by (simp add: is_terminated_def)
    then obtain s2 where s2: "terminate_task ?canceled ?s1 = Inr s2"
      using terminate_task_safe[of ?canceled ?s1] Cons.prems(2,3) by auto
    note sw = remove_self_generated_swept[OF Cons.prems(1) True s2]
    note fr = terminate_task_frame[OF s2]
    have m2: "terminated_tasks_max_size s2 = terminated_tasks_max_size s"
      using terminate_task_result[OF s2] by simp
    from Cons.IH[OF rest, of s2] m2 Cons.prems(2,3)
    obtain s' where s': "remove_self_generated fleet rest s2 = Inr s'"
      "active_dispatch_tasks s' =
         filter (\<lambda>e. fst e \<notin> fst ` set (filter (self_generated_of fleet s2) rest))
           (active_dispatch_tasks s2)"
      "user_submitted_tasks s' = user_submitted_tasks s2"
      "queue_bidding_tasks s' = queue_bidding_tasks s2"
      "task_counter s' = task_counter s2"
      "terminated_tasks_max_size s' = terminated_tasks_max_size s2"
      "on_change_fn s' = on_change_fn s2"
      by auto
    have "active_dispatch_tasks s' =
            filter (\<lambda>e. fst e \<notin> fst ` set (filter (self_generated_of fleet s) (it # rest)))
              (active_dispatch_tasks s)"
      using s'(2) sw(2,4) True by (auto simp: AList.delete_eq intro: filter_cong)
    then show ?thesis
      using sw s' fr m2 by simp
  qed
qed

lemma self_generated_filter_keyed:
  assumes "keyed_by_id tasks"
  shows "filter (\<lambda>e. fst e \<notin> fst ` set (filter P tasks)) tasks = filter (\<lambda>e. \<not> P e) tasks"
proof (rule filter_cong[OF refl])
  fix e assume e: "e \<in> set tasks"
  have inj: "inj_on fst (set tasks)"
    using assms by (simp add: keyed_by_id_def distinct_map)
  show "(fst e \<notin> fst ` set (filter P tasks)) = (\<not> P e)"
  proof
    assume "fst e \<notin> fst ` set (filter P tasks)"
    then show "\<not> P e" using e by force
  next
    assume np: "\<not> P e"
    show "fst e \<notin> fst ` set (filter P tasks)"
    proof
      assume "fst e \<in> fst ` set (filter P tasks)"
      then obtain x where x: "x \<in> set tasks" "P x" "fst x = fst e" by auto
      then have "x = e" using inj e by (auto dest: inj_onD)
      then show False using x np by simp
    qed
  qed
qed

lemma terminate_task_no_eviction:
  assumes "terminate_task st s = Inr s'" "\<not> capacity_reached s"
  shows "terminal_dispatch_tasks s' =
           AList.update (task_id (task_profile st)) st (terminal_dispatch_tasks s)"
  using terminate_task_result[OF assms(1)] assms(2) by simp

lemma remove_self_generated_terminal:
  assumes "keyed_by_id todo" "2 \<le> terminated_tasks_max_size s"
    "terminated_tasks_max_size s < 2 ^ 64"
    and "length (terminal_dispatch_tasks s) + length (filter (self_generated_of fleet s) todo)
           \<le> nat (terminated_tasks_max_size s)"
    and "remove_self_generated fleet todo s = Inr s'"
  shows "(\<forall>e \<in> set (filter (self_generated_of fleet s) todo).
            map_of (terminal_dispatch_tasks s') (fst e) = Some ((snd e)\<lparr>state := Canceled\<rparr>))
         \<and> (\<forall>k. k \<notin> fst ` set (filter (self_generated_of fleet s) todo) \<longrightarrow>
               map_of (terminal_dispatch_tasks s') k = map_of (terminal_dispatch_tasks s) k)"
  using assms
proof (induction todo arbitrary: s)
  case Nil
  then show ?case by (simp add: remove_self_generated.simps)
next
  case (Cons it rest)
  from Cons.prems(1) have rest: "keyed_by_id rest" and k: "fst it \<notin> fst ` set rest"
    and tid: "task_id (task_profile (snd it)) = fst it"
    by (simp_all add: keyed_by_id_Cons)
  show ?case
  proof (cases "self_generated_of fleet s it")
    case False
    then show ?thesis
      using Cons.IH[OF rest Cons.prems(2) Cons.prems(3)] Cons.prems(4,5)
      by (simp add: remove_self_generated_kept)
  next
    case True
    let ?canceled = "(snd it)\<lparr>state := Canceled\<rparr>"
    let ?s1 = "s\<lparr>active_dispatch_tasks :=
                   AList.map_entry (fst it) (\<lambda>st. st\<lparr>state := Canceled\<rparr>)
                     (active_dispatch_tasks s)\<rparr>"
    have "is_terminated ?canceled" by (simp add: is_terminated_def)
    then obtain s2 where s2: "terminate_task ?canceled ?s1 = Inr s2"
      using terminate_task_safe[of ?canceled ?s1] Cons.prems(2,3) by auto
    note sw = remove_self_generated_swept[OF Cons.prems(1) True s2]
    have m2: "terminated_tasks_max_size s2 = terminated_tasks_max_size s"
      using terminate_task_result[OF s2] by simp
    have room: "length (terminal_dispatch_tasks s) < nat (terminated_tasks_max_size s)"
      using Cons.prems(4) True by simp
    then have nocap: "\<not> capacity_reached ?s1"
      using Cons.prems(2,3) by (simp add: capacity_reached_def size_t_of_int_id)
    have t2: "terminal_dispatch_tasks s2 =
                AList.update (fst it) ?canceled (terminal_dispatch_tasks s)"
      using terminate_task_no_eviction[OF s2 nocap] tid by simp
    have len2: "length (terminal_dispatch_tasks s2) \<le> Suc (length (terminal_dispatch_tasks s))"
      using t2 length_update_le[of "fst it" ?canceled "terminal_dispatch_tasks s"] by simp
    have room2: "length (terminal_dispatch_tasks s2)
                   + length (filter (self_generated_of fleet s2) rest)
                 \<le> nat (terminated_tasks_max_size s2)"
      using len2 Cons.prems(4) True sw(4) m2 by simp
    have run2: "remove_self_generated fleet rest s2 = Inr s'"
      using sw(1) Cons.prems(5) by simp
    have ih: "(\<forall>e \<in> set (filter (self_generated_of fleet s) rest).
                 map_of (terminal_dispatch_tasks s') (fst e) = Some ((snd e)\<lparr>state := Canceled\<rparr>))
              \<and> (\<forall>k. k \<notin> fst ` set (filter (self_generated_of fleet s) rest) \<longrightarrow>
                    map_of (terminal_dispatch_tasks s') k = map_of (terminal_dispatch_tasks s2) k)"
      using Cons.IH[OF rest _ _ room2 run2] m2 Cons.prems(2,3) sw(4) by simp
    have notin: "fst it \<notin> fst ` set (filter (self_generated_of fleet s) rest)"
      using k by auto
    have it: "map_of (terminal_dispatch_tasks s') (fst it) = Some ?canceled"
      using ih notin t2 by (simp add: update_conv')
    have other: "map_of (terminal_dispatch_tasks s') k' = map_of (terminal_dispatch_tasks s) k'"
      if "k' \<notin> fst ` set (filter (self_generated_of fleet s) (it # rest))" for k'
    proof -
      from that True have "k' \<noteq> fst it"
        and "k' \<notin> fst ` set (filter (self_generated_of fleet s) rest)" by auto
      then show ?thesis using ih t2 by (simp add: update_conv')
    qed
    show ?thesis using ih it other True by auto
  qed
qed

section \<open>Events of a termination; the auction handler and cancellation\<close>

lemma minted_ids_append: "minted_ids (xs @ ys) = minted_ids xs @ minted_ids ys"
  by (induction xs rule: minted_ids.induct) auto

lemma started_biddings_append:
  "started_biddings (xs @ ys) = started_biddings xs @ started_biddings ys"
  by (induction xs rule: started_biddings.induct) auto

lemma housekeeping_quiet:
  "list_all housekeeping es \<Longrightarrow> minted_ids es = [] \<and> started_biddings es = []"
  by (induction es) (auto simp: housekeeping_def split: event.splits)

lemma terminate_task_events:
  assumes "terminate_task st s = Inr s'"
  shows "\<exists>es. events s' = events s @ es \<and> list_all housekeeping es"
  using assms
  by (auto simp: terminate_task_def evict_if_full_cases Let_def emit_def publish_ongoing_tasks_def
        housekeeping_def split: if_splits)

lemma remove_self_generated_events:
  "remove_self_generated fleet todo s = Inr s' \<Longrightarrow>
   \<exists>es. events s' = events s @ es \<and> list_all housekeeping es"
proof (induction fleet todo s rule: remove_self_generated.induct)
  case (1 fleet s)
  then show ?case by (simp add: remove_self_generated.simps)
next
  case (2 fleet it rest s)
  show ?case
  proof (cases "fst it \<notin> user_submitted_tasks s \<and> fleet = fleet_name (snd it)")
    case False
    then have "remove_self_generated fleet rest s = Inr s'"
      using "2.prems" by (auto simp: remove_self_generated.simps)
    then show ?thesis using False "2.IH"(2) by simp
  next
    case True
    let ?s1 = "s\<lparr>active_dispatch_tasks :=
                   AList.map_entry (fst it) (\<lambda>st. st\<lparr>state := Canceled\<rparr>)
                     (active_dispatch_tasks s)\<rparr>"
    let ?canceled = "(snd it)\<lparr>state := Canceled\<rparr>"
    let ?tid = "task_id (task_profile ?canceled)"
    from "2.prems" True have nohd: "\<not> (rest \<noteq> [] \<and> fst (hd rest) = ?tid)"
      by (auto simp: remove_self_generated.simps Let_def split: if_splits)
    from "2.prems" True nohd obtain s2 where s2: "terminate_task ?canceled ?s1 = Inr s2"
      and r: "remove_self_generated fleet (AList.delete ?tid rest) s2 = Inr s'"
      by (auto simp: remove_self_generated.simps Let_def split: if_splits sum.splits)
    from terminate_task_events[OF s2] obtain es1 where
      es1: "events s2 = events s @ es1" "list_all housekeeping es1" by auto
    from "2.IH"(1)[OF refl refl _ refl refl refl nohd s2 r] True obtain es2 where
      es2: "events s' = events s2 @ es2" "list_all housekeeping es2" by auto
    have "events s' = events s @ (es1 @ es2)" using es1 es2 by simp
    moreover have "list_all housekeeping (es1 @ es2)" using es1 es2 by simp
    ultimately show ?thesis by blast
  qed
qed


lemma keyed_by_id_map_entry:
  assumes "keyed_by_id tasks" "\<And>st. task_profile (f st) = task_profile st"
  shows "keyed_by_id (AList.map_entry k f tasks)"
proof -
  have "list_all (\<lambda>e. task_id (task_profile (snd e)) = fst e) (AList.map_entry k f tasks)"
    if "list_all (\<lambda>e. task_id (task_profile (snd e)) = fst e) tasks"
    using that assms(2) by (induction tasks) auto
  then show ?thesis
    using assms(1) by (simp add: keyed_by_id_def distinct_map_entry)
qed

lemma keyed_by_id_lookup:
  "keyed_by_id tasks \<Longrightarrow> map_of tasks k = Some st \<Longrightarrow> task_id (task_profile st) = k"
  by (auto simp: keyed_by_id_def list_all_iff dest: map_of_SomeD)

lemma self_generated_of_emit [simp]:
  "self_generated_of fleet (emit e s) = self_generated_of fleet s"
  by (simp add: self_generated_of_def emit_def fun_eq_iff)

lemma notify_referenced_result:
  "notify_referenced tid s = Inr s' \<Longrightarrow> s' = s \<or> (\<exists>st. s' = emit (On_change st) s)"
  by (auto simp: notify_referenced_def referenced_status_def split: if_splits option.splits)

lemma map_of_filter_keep:
  "map_of xs k = Some v \<Longrightarrow> P (k, v) \<Longrightarrow> map_of (filter P xs) k = Some v"
  by (induction xs) (auto split: if_splits)

lemma no_winner_terminated:
  assumes act: "map_of (active_dispatch_tasks s) tid = Some st"
    and m: "2 \<le> terminated_tasks_max_size s" "terminated_tasks_max_size s < 2 ^ 64"
  shows "\<exists>s3. terminate_task (st\<lparr>state := Failed\<rparr>)
                 ((emit (Log WARN
      ''Dispatcher Bidding Result: task [%s] has no submissions during bidding, Task Failed''
      [tid]) s)\<lparr>active_dispatch_tasks :=
         AList.map_entry tid (\<lambda>st. st\<lparr>state := Failed\<rparr>) (active_dispatch_tasks s)\<rparr>) = Inr s3
           \<and> queue_bidding_tasks s3 = queue_bidding_tasks s
           \<and> started_biddings (events s3) = started_biddings (events s)
           \<and> on_change_fn s3 = on_change_fn s
           \<and> active_dispatch_tasks s3 =
               AList.delete (task_id (task_profile st))
                 (AList.map_entry tid (\<lambda>st. st\<lparr>state := Failed\<rparr>) (active_dispatch_tasks s))"
proof -
  let ?failed = "st\<lparr>state := Failed\<rparr>"
  let ?s2 = "(emit (Log WARN
      ''Dispatcher Bidding Result: task [%s] has no submissions during bidding, Task Failed''
      [tid]) s)\<lparr>active_dispatch_tasks :=
         AList.map_entry tid (\<lambda>st. st\<lparr>state := Failed\<rparr>) (active_dispatch_tasks s)\<rparr>"
  have "is_terminated ?failed" by (simp add: is_terminated_def)
  moreover have "terminated_tasks_max_size ?s2 = terminated_tasks_max_size s"
    by (simp add: emit_def)
  ultimately obtain s3 where s3: "terminate_task ?failed ?s2 = Inr s3"
    using terminate_task_safe[of ?failed ?s2] m by auto
  note fr = terminate_task_frame[OF s3]
  from terminate_task_events[OF s3] obtain es where
    es: "events s3 = events ?s2 @ es" "list_all housekeeping es" by auto
  have "queue_bidding_tasks s3 = queue_bidding_tasks s"
    using fr(3) by (simp add: emit_def)
  moreover have "started_biddings (events s3) = started_biddings (events s)"
    using es housekeeping_quiet[OF es(2)] by (simp add: started_biddings_append emit_def)
  moreover have "on_change_fn s3 = on_change_fn s"
    using fr(5) by (simp add: emit_def)
  moreover have "active_dispatch_tasks s3 =
                   AList.delete (task_id (task_profile st))
                     (AList.map_entry tid (\<lambda>st. st\<lparr>state := Failed\<rparr>) (active_dispatch_tasks s))"
    using fr(1) by (simp add: emit_def)
  ultimately show ?thesis using s3 by blast
qed

lemma receive_no_winner:
  assumes act: "map_of (active_dispatch_tasks s) tid = Some st"
    and nob: "\<not> on_change_fn s"
    and m: "2 \<le> terminated_tasks_max_size s" "terminated_tasks_max_size s < 2 ^ 64"
  shows "queue_bidding_tasks s \<noteq> [] \<longrightarrow>
           (\<exists>s'. receive_bidding_winner_cb tid None s = Inr s'
              \<and> queue_bidding_tasks s' = tl (queue_bidding_tasks s)
              \<and> started_biddings (events s') =
                  started_biddings (events s)
                    @ (if tl (queue_bidding_tasks s) = [] then []
                       else [hd (tl (queue_bidding_tasks s))]))"
    and "queue_bidding_tasks s = [] \<longrightarrow>
           receive_bidding_winner_cb tid None s = Inl Pop_empty_queue"
proof -
  from no_winner_terminated[OF act m] obtain s3 where
    s3: "terminate_task (st\<lparr>state := Failed\<rparr>)
           ((emit (Log WARN
      ''Dispatcher Bidding Result: task [%s] has no submissions during bidding, Task Failed''
      [tid]) s)\<lparr>active_dispatch_tasks :=
         AList.map_entry tid (\<lambda>st. st\<lparr>state := Failed\<rparr>) (active_dispatch_tasks s)\<rparr>) = Inr s3"
    and q3: "queue_bidding_tasks s3 = queue_bidding_tasks s"
    and sb3: "started_biddings (events s3) = started_biddings (events s)"
    and ob3: "on_change_fn s3 = on_change_fn s"
    by blast
  have unfold: "receive_bidding_winner_cb tid None s =
      (case pop_bidding_queue s3 of
         Inl f \<Rightarrow> Inl f
       | Inr s4 \<Rightarrow> Inr (start_next_bidding s4))"
    using act s3 ob3 nob
    by (simp add: receive_bidding_winner_cb_def Let_def notify_referenced_def emit_def)
  show "queue_bidding_tasks s \<noteq> [] \<longrightarrow>
           (\<exists>s'. receive_bidding_winner_cb tid None s = Inr s'
              \<and> queue_bidding_tasks s' = tl (queue_bidding_tasks s)
              \<and> started_biddings (events s') =
                  started_biddings (events s)
                    @ (if tl (queue_bidding_tasks s) = [] then []
                       else [hd (tl (queue_bidding_tasks s))]))"
    using unfold q3 sb3
    by (cases "queue_bidding_tasks s")
       (auto simp: pop_bidding_queue_def emit_def start_next_bidding_def
          started_biddings_append)
  show "queue_bidding_tasks s = [] \<longrightarrow>
           receive_bidding_winner_cb tid None s = Inl Pop_empty_queue"
    using unfold q3 by (auto simp: pop_bidding_queue_def)
qed

text \<open>
  With an observer registered the call after \<^verbatim>\<open>terminate_task\<close> goes through the
  reference to the entry that has just been erased.
\<close>

lemma receive_no_winner_observer:
  assumes act: "map_of (active_dispatch_tasks s) tid = Some st"
    and ob: "on_change_fn s"
    and wf: "keyed_by_id (active_dispatch_tasks s)"
    and m: "2 \<le> terminated_tasks_max_size s" "terminated_tasks_max_size s < 2 ^ 64"
  shows "receive_bidding_winner_cb tid None s = Inl Dangling_reference"
proof -
  from no_winner_terminated[OF act m] obtain s3 where
    s3: "terminate_task (st\<lparr>state := Failed\<rparr>)
           ((emit (Log WARN
      ''Dispatcher Bidding Result: task [%s] has no submissions during bidding, Task Failed''
      [tid]) s)\<lparr>active_dispatch_tasks :=
         AList.map_entry tid (\<lambda>st. st\<lparr>state := Failed\<rparr>) (active_dispatch_tasks s)\<rparr>) = Inr s3"
    and ob3: "on_change_fn s3 = on_change_fn s"
    and a3: "active_dispatch_tasks s3 =
               AList.delete (task_id (task_profile st))
                 (AList.map_entry tid (\<lambda>st. st\<lparr>state := Failed\<rparr>) (active_dispatch_tasks s))"
    by blast
  have "task_id (task_profile st) = tid"
    using keyed_by_id_lookup[OF wf act] .
  then have "map_of (active_dispatch_tasks s3) tid = None"
    using a3 by (simp add: delete_conv')
  then show ?thesis
    using act s3 ob3 ob
    by (simp add: receive_bidding_winner_cb_def Let_def notify_referenced_def
          referenced_status_def emit_def)
qed

lemma receive_winner:
  assumes act: "map_of (active_dispatch_tasks s) tid = Some st"
    and u: "tid \<in> user_submitted_tasks s"
    and wf: "keyed_by_id (active_dispatch_tasks s)"
    and m: "2 \<le> terminated_tasks_max_size s" "terminated_tasks_max_size s < 2 ^ 64"
  shows "\<exists>s'. receive_bidding_winner_cb tid (Some w) s = Inr s'
           \<and> queue_bidding_tasks s' = queue_bidding_tasks s
           \<and> started_biddings (events s') = started_biddings (events s)
           \<and> user_submitted_tasks s' = user_submitted_tasks s
           \<and> active_dispatch_tasks s' =
               filter (\<lambda>e. \<not> self_generated_of (winner_fleet_name w) s e)
                 (AList.map_entry tid (\<lambda>st. st\<lparr>fleet_name := winner_fleet_name w\<rparr>)
                    (active_dispatch_tasks s))
           \<and> (length (terminal_dispatch_tasks s)
                 + length (filter (self_generated_of (winner_fleet_name w) s)
                     (AList.map_entry tid (\<lambda>st. st\<lparr>fleet_name := winner_fleet_name w\<rparr>)
                        (active_dispatch_tasks s)))
                \<le> nat (terminated_tasks_max_size s) \<longrightarrow>
               (\<forall>e \<in> set (AList.map_entry tid (\<lambda>st. st\<lparr>fleet_name := winner_fleet_name w\<rparr>)
                              (active_dispatch_tasks s)).
                  self_generated_of (winner_fleet_name w) s e \<longrightarrow>
                  map_of (terminal_dispatch_tasks s') (fst e)
                    = Some ((snd e)\<lparr>state := Canceled\<rparr>)))"
proof -
  let ?fleet = "winner_fleet_name w"
  let ?A = "AList.map_entry tid (\<lambda>st. st\<lparr>fleet_name := ?fleet\<rparr>) (active_dispatch_tasks s)"
  let ?s2 = "emit (Log INFO
      ''Dispatcher Bidding Result: task [%s] is accepted by fleet adapter [%s]''
      [tid, ?fleet]) (s\<lparr>active_dispatch_tasks := ?A\<rparr>)"
  have A2: "active_dispatch_tasks ?s2 = ?A" by (simp add: emit_def)
  have kA: "keyed_by_id ?A" using wf by (rule keyed_by_id_map_entry) simp
  have m2: "terminated_tasks_max_size ?s2 = terminated_tasks_max_size s" by (simp add: emit_def)
  have sg: "self_generated_of ?fleet ?s2 = self_generated_of ?fleet s"
    by (simp add: self_generated_of_def fun_eq_iff emit_def)
  from remove_self_generated_spec[of ?A ?s2 ?fleet] kA m m2
  obtain s3 where s3: "remove_self_generated ?fleet ?A ?s2 = Inr s3"
    "active_dispatch_tasks s3 =
       filter (\<lambda>e. fst e \<notin> fst ` set (filter (self_generated_of ?fleet ?s2) ?A)) ?A"
    "user_submitted_tasks s3 = user_submitted_tasks ?s2"
    "queue_bidding_tasks s3 = queue_bidding_tasks ?s2"
    by (auto simp: A2)
  from remove_self_generated_events[OF s3(1)] obtain es where
    es: "events s3 = events ?s2 @ es" "list_all housekeeping es" by auto
  have a3: "active_dispatch_tasks s3 = filter (\<lambda>e. \<not> self_generated_of ?fleet s e) ?A"
    using s3(2) self_generated_filter_keyed[OF kA, of "self_generated_of ?fleet s"] sg by simp
  have tfact: "\<forall>e \<in> set ?A. self_generated_of ?fleet s e \<longrightarrow>
                map_of (terminal_dispatch_tasks s3) (fst e) = Some ((snd e)\<lparr>state := Canceled\<rparr>)"
    if room: "length (terminal_dispatch_tasks s)
                + length (filter (self_generated_of ?fleet s) ?A)
              \<le> nat (terminated_tasks_max_size s)"
  proof -
    have "length (terminal_dispatch_tasks ?s2)
            + length (filter (self_generated_of ?fleet ?s2) ?A)
          \<le> nat (terminated_tasks_max_size ?s2)"
      using room sg by (simp add: emit_def)
    from remove_self_generated_terminal[OF kA _ _ this s3(1)] m m2 sg
    show ?thesis by auto
  qed
  let ?handed = "st\<lparr>fleet_name := ?fleet\<rparr>"
  have "map_of ?A tid = Some ?handed"
    using act by (simp add: map_of_map_entry)
  moreover have "\<not> self_generated_of ?fleet s (tid, ?handed)"
    using u by (simp add: self_generated_of_def)
  ultimately have "map_of (active_dispatch_tasks s3) tid = Some ?handed"
    unfolding a3 by (rule map_of_filter_keep)
  then have unfold: "receive_bidding_winner_cb tid (Some w) s =
                  Inr (emit (Action_add_task ?fleet (task_profile ?handed) ?handed) s3)"
    using act s3(1) by (simp add: receive_bidding_winner_cb_def Let_def A2 referenced_status_def)
  have "started_biddings (events s3) = started_biddings (events s)"
    using es housekeeping_quiet[OF es(2)] by (simp add: started_biddings_append emit_def)
  then show ?thesis
    using unfold s3(3,4) a3 tfact
    by (simp add: emit_def started_biddings_append)
qed


lemma cancel_absent_or_refused:
  shows "map_of (active_dispatch_tasks s) tid = None \<Longrightarrow>
           \<exists>s'. cancel_task tid ack s = Inr (False, s')
              \<and> active_dispatch_tasks s' = active_dispatch_tasks s
              \<and> terminal_dispatch_tasks s' = terminal_dispatch_tasks s
              \<and> user_submitted_tasks s' = user_submitted_tasks s"
    and "map_of (active_dispatch_tasks s) tid = Some st \<Longrightarrow> state st \<noteq> Pending \<Longrightarrow>
         tid \<notin> user_submitted_tasks s \<or> state st \<noteq> Queued \<Longrightarrow>
           \<exists>s'. cancel_task tid ack s = Inr (False, s')
              \<and> active_dispatch_tasks s' = active_dispatch_tasks s
              \<and> terminal_dispatch_tasks s' = terminal_dispatch_tasks s
              \<and> user_submitted_tasks s' = user_submitted_tasks s"
  by (auto simp: cancel_task_def Let_def emit_def)

lemma cancel_pending_terminated:
  assumes act: "map_of (active_dispatch_tasks s) tid = Some st"
    and wf: "keyed_by_id (active_dispatch_tasks s)"
    and m: "2 \<le> terminated_tasks_max_size s" "terminated_tasks_max_size s < 2 ^ 64"
  shows "\<exists>s3. terminate_task (st\<lparr>state := Canceled\<rparr>)
                 ((emit (Log WARN ''Cancel task: [%s]'' [tid]) s)
                    \<lparr>active_dispatch_tasks :=
                       AList.map_entry tid (\<lambda>st. st\<lparr>state := Canceled\<rparr>)
                         (active_dispatch_tasks s)\<rparr>) = Inr s3
           \<and> map_of (active_dispatch_tasks s3) tid = None
           \<and> map_of (terminal_dispatch_tasks s3) tid = Some (st\<lparr>state := Canceled\<rparr>)
           \<and> on_change_fn s3 = on_change_fn s"
proof -
  let ?canceled = "st\<lparr>state := Canceled\<rparr>"
  let ?s2 = "(emit (Log WARN ''Cancel task: [%s]'' [tid]) s)
               \<lparr>active_dispatch_tasks :=
                  AList.map_entry tid (\<lambda>st. st\<lparr>state := Canceled\<rparr>) (active_dispatch_tasks s)\<rparr>"
  have tid: "task_id (task_profile ?canceled) = tid"
    using keyed_by_id_lookup[OF wf act] by simp
  have "is_terminated ?canceled" by (simp add: is_terminated_def)
  moreover have "terminated_tasks_max_size ?s2 = terminated_tasks_max_size s"
    by (simp add: emit_def)
  ultimately obtain s3 where s3: "terminate_task ?canceled ?s2 = Inr s3"
    using terminate_task_safe[of ?canceled ?s2] m by auto
  note fr = terminate_task_frame[OF s3]
  have "map_of (active_dispatch_tasks s3) tid = None"
    using fr(1) tid by (simp add: delete_conv')
  moreover have "map_of (terminal_dispatch_tasks s3) tid = Some ?canceled"
    using terminate_task_result[OF s3] tid by (simp add: update_conv')
  moreover have "on_change_fn s3 = on_change_fn s"
    using fr(5) by (simp add: emit_def)
  ultimately show ?thesis using s3 by blast
qed

lemma cancel_pending:
  assumes act: "map_of (active_dispatch_tasks s) tid = Some st" and p: "state st = Pending"
    and nob: "\<not> on_change_fn s"
    and wf: "keyed_by_id (active_dispatch_tasks s)"
    and m: "2 \<le> terminated_tasks_max_size s" "terminated_tasks_max_size s < 2 ^ 64"
  shows "\<exists>s'. cancel_task tid ack s = Inr (True, s')
           \<and> map_of (active_dispatch_tasks s') tid = None
           \<and> map_of (terminal_dispatch_tasks s') tid = Some (st\<lparr>state := Canceled\<rparr>)"
proof -
  from cancel_pending_terminated[OF act wf m] obtain s3 where
    s3: "terminate_task (st\<lparr>state := Canceled\<rparr>)
           ((emit (Log WARN ''Cancel task: [%s]'' [tid]) s)
              \<lparr>active_dispatch_tasks :=
                 AList.map_entry tid (\<lambda>st. st\<lparr>state := Canceled\<rparr>)
                   (active_dispatch_tasks s)\<rparr>) = Inr s3"
    and r: "map_of (active_dispatch_tasks s3) tid = None"
      "map_of (terminal_dispatch_tasks s3) tid = Some (st\<lparr>state := Canceled\<rparr>)"
      "on_change_fn s3 = on_change_fn s"
    by blast
  have "cancel_task tid ack s = Inr (True, s3)"
    using act p s3 r(3) nob by (simp add: cancel_task_def Let_def notify_referenced_def emit_def)
  then show ?thesis using r by simp
qed

text \<open>
  With an observer registered the notification of the Pending case goes through the
  reference to the entry that \<^verbatim>\<open>terminate_task\<close> has just erased.
\<close>

lemma cancel_pending_observer:
  assumes act: "map_of (active_dispatch_tasks s) tid = Some st" and p: "state st = Pending"
    and ob: "on_change_fn s"
    and wf: "keyed_by_id (active_dispatch_tasks s)"
    and m: "2 \<le> terminated_tasks_max_size s" "terminated_tasks_max_size s < 2 ^ 64"
  shows "cancel_task tid ack s = Inl Dangling_reference"
proof -
  from cancel_pending_terminated[OF act wf m] obtain s3 where
    s3: "terminate_task (st\<lparr>state := Canceled\<rparr>)
           ((emit (Log WARN ''Cancel task: [%s]'' [tid]) s)
              \<lparr>active_dispatch_tasks :=
                 AList.map_entry tid (\<lambda>st. st\<lparr>state := Canceled\<rparr>)
                   (active_dispatch_tasks s)\<rparr>) = Inr s3"
    and r: "map_of (active_dispatch_tasks s3) tid = None" "on_change_fn s3 = on_change_fn s"
    by blast
  show ?thesis
    using act p s3 r ob
    by (simp add: cancel_task_def Let_def notify_referenced_def referenced_status_def emit_def)
qed

lemma cancel_queued:
  assumes act: "map_of (active_dispatch_tasks s) tid = Some st" and q: "state st = Queued"
    and u: "tid \<in> user_submitted_tasks s"
    and wf: "keyed_by_id (active_dispatch_tasks s)"
    and m: "2 \<le> terminated_tasks_max_size s" "terminated_tasks_max_size s < 2 ^ 64"
  shows "\<exists>s'. cancel_task tid ack s = Inr (ack, s')
           \<and> active_dispatch_tasks s' =
               filter (\<lambda>e. \<not> self_generated_of (fleet_name st) s e) (active_dispatch_tasks s)
           \<and> user_submitted_tasks s' = user_submitted_tasks s
           \<and> last (events s') = Action_cancel_task (task_profile st)
           \<and> (length (terminal_dispatch_tasks s)
                 + length (filter (self_generated_of (fleet_name st) s) (active_dispatch_tasks s))
                \<le> nat (terminated_tasks_max_size s) \<longrightarrow>
               (\<forall>e \<in> set (active_dispatch_tasks s).
                  self_generated_of (fleet_name st) s e \<longrightarrow>
                  map_of (terminal_dispatch_tasks s') (fst e)
                    = Some ((snd e)\<lparr>state := Canceled\<rparr>)))"
proof -
  let ?fleet = "fleet_name st"
  let ?A = "active_dispatch_tasks s"
  let ?s1 = "emit (Log WARN ''Cancel task: [%s]'' [tid]) s"
  have A1: "active_dispatch_tasks ?s1 = ?A" by (simp add: emit_def)
  have m1: "terminated_tasks_max_size ?s1 = terminated_tasks_max_size s" by (simp add: emit_def)
  have sg: "self_generated_of ?fleet ?s1 = self_generated_of ?fleet s" by simp
  from remove_self_generated_spec[of ?A ?s1 ?fleet] wf m m1
  obtain s2 where s2: "remove_self_generated ?fleet ?A ?s1 = Inr s2"
    "active_dispatch_tasks s2 =
       filter (\<lambda>e. fst e \<notin> fst ` set (filter (self_generated_of ?fleet ?s1) ?A)) ?A"
    "user_submitted_tasks s2 = user_submitted_tasks ?s1"
    by (auto simp: A1)
  have a2: "active_dispatch_tasks s2 = filter (\<lambda>e. \<not> self_generated_of ?fleet s e) ?A"
    using s2(2) self_generated_filter_keyed[OF wf, of "self_generated_of ?fleet s"] sg by simp
  have tfact: "\<forall>e \<in> set ?A. self_generated_of ?fleet s e \<longrightarrow>
                map_of (terminal_dispatch_tasks s2) (fst e) = Some ((snd e)\<lparr>state := Canceled\<rparr>)"
    if room: "length (terminal_dispatch_tasks s) + length (filter (self_generated_of ?fleet s) ?A)
              \<le> nat (terminated_tasks_max_size s)"
  proof -
    have "length (terminal_dispatch_tasks ?s1)
            + length (filter (self_generated_of ?fleet ?s1) ?A)
          \<le> nat (terminated_tasks_max_size ?s1)"
      using room sg by (simp add: emit_def)
    from remove_self_generated_terminal[OF wf _ _ this s2(1)] m m1 sg
    show ?thesis by auto
  qed
  have "\<not> self_generated_of ?fleet s (tid, st)"
    using u by (simp add: self_generated_of_def)
  with act have "map_of (active_dispatch_tasks s2) tid = Some st"
    unfolding a2 by (rule map_of_filter_keep)
  then have "cancel_task tid ack s = Inr (ack, emit (Action_cancel_task (task_profile st)) s2)"
    using act q u s2(1) by (simp add: cancel_task_def Let_def emit_def referenced_status_def)
  then show ?thesis
    using a2 s2(3) tfact by (simp add: emit_def)
qed

section \<open>The bidding queue after an auction\<close>

lemma task_status_cb_pops_head:
  assumes "queue_bidding_tasks s \<noteq> []"
    and "task_id (task_profile status)
           = task_id (notice_task_profile (hd (queue_bidding_tasks s)))"
  shows "queue_bidding_tasks (task_status_cb status s) = tl (queue_bidding_tasks s)"
    and "started_biddings (events (task_status_cb status s)) =
           started_biddings (events s)
             @ (if tl (queue_bidding_tasks s) = [] then []
                else [hd (tl (queue_bidding_tasks s))])"
  using assms
  by (auto simp: task_status_cb_def Let_def on_change_def emit_def start_next_bidding_def
        started_biddings_append split: option.splits)

text \<open>
  Claim C2 (as amended). The auction completion handler runs for a task that is in the
  active table, in a dispatcher whose active table stores every status under its own task
  id and whose \<^verbatim>\<open>terminated_tasks_max_size\<close> is at least two.
  If no submission arrived, no observer is registered and the bidding queue is not empty,
  the head of the bidding queue is popped and, if further notices remain, bidding is
  started on the new head, and on nothing else.
  If a winning submission is delivered for a user-submitted task, the handler leaves the
  bidding queue unchanged and starts no bidding; the head is popped afterwards by the
  status callback: a status callback whose task id is the id of the head of the
  (non-empty) queue pops the head and, if further notices remain, starts bidding on the
  new head, and on nothing else.
\<close>

theorem auction_completion_queue:
  assumes "map_of (active_dispatch_tasks s) tid = Some st"
    and "keyed_by_id (active_dispatch_tasks s)"
    and "2 \<le> terminated_tasks_max_size s" "terminated_tasks_max_size s < 2 ^ 31"
  shows "(\<not> on_change_fn s \<and> queue_bidding_tasks s \<noteq> [] \<longrightarrow>
            (\<exists>s'. receive_bidding_winner_cb tid None s = Inr s'
               \<and> queue_bidding_tasks s' = tl (queue_bidding_tasks s)
               \<and> started_biddings (events s') =
                   started_biddings (events s)
                     @ (if tl (queue_bidding_tasks s) = [] then []
                        else [hd (tl (queue_bidding_tasks s))])))
         \<and> (tid \<in> user_submitted_tasks s \<longrightarrow>
              (\<exists>s'. receive_bidding_winner_cb tid (Some w) s = Inr s'
                 \<and> queue_bidding_tasks s' = queue_bidding_tasks s
                 \<and> started_biddings (events s') = started_biddings (events s)
                 \<and> (queue_bidding_tasks s \<noteq> []
                      \<and> task_id (task_profile status)
                          = task_id (notice_task_profile (hd (queue_bidding_tasks s))) \<longrightarrow>
                        queue_bidding_tasks (task_status_cb status s')
                          = tl (queue_bidding_tasks s)
                        \<and> started_biddings (events (task_status_cb status s')) =
                            started_biddings (events s)
                              @ (if tl (queue_bidding_tasks s) = [] then []
                                 else [hd (tl (queue_bidding_tasks s))]))))"
proof (intro conjI impI)
  have lt: "terminated_tasks_max_size s < 2 ^ 64" using assms(4) by simp
  {
    assume h: "\<not> on_change_fn s \<and> queue_bidding_tasks s \<noteq> []"
    then show "\<exists>s'. receive_bidding_winner_cb tid None s = Inr s'
               \<and> queue_bidding_tasks s' = tl (queue_bidding_tasks s)
               \<and> started_biddings (events s') =
                   started_biddings (events s)
                     @ (if tl (queue_bidding_tasks s) = [] then []
                        else [hd (tl (queue_bidding_tasks s))])"
      using receive_no_winner(1)[OF assms(1) _ assms(3) lt] by blast
  next
    assume u: "tid \<in> user_submitted_tasks s"
    from receive_winner[OF assms(1) u assms(2,3) lt, of w]
    obtain s' where s': "receive_bidding_winner_cb tid (Some w) s = Inr s'"
      "queue_bidding_tasks s' = queue_bidding_tasks s"
      "started_biddings (events s') = started_biddings (events s)"
      by blast
    have "queue_bidding_tasks (task_status_cb status s') = tl (queue_bidding_tasks s)
            \<and> started_biddings (events (task_status_cb status s')) =
                started_biddings (events s)
                  @ (if tl (queue_bidding_tasks s) = [] then []
                     else [hd (tl (queue_bidding_tasks s))])"
      if "queue_bidding_tasks s \<noteq> []
            \<and> task_id (task_profile status)
                = task_id (notice_task_profile (hd (queue_bidding_tasks s)))"
      using task_status_cb_pops_head[of s' status] that s'(2,3) by simp
    then show "\<exists>s'. receive_bidding_winner_cb tid (Some w) s = Inr s'
                 \<and> queue_bidding_tasks s' = queue_bidding_tasks s
                 \<and> started_biddings (events s') = started_biddings (events s)
                 \<and> (queue_bidding_tasks s \<noteq> []
                      \<and> task_id (task_profile status)
                          = task_id (notice_task_profile (hd (queue_bidding_tasks s))) \<longrightarrow>
                        queue_bidding_tasks (task_status_cb status s')
                          = tl (queue_bidding_tasks s)
                        \<and> started_biddings (events (task_status_cb status s')) =
                            started_biddings (events s)
                              @ (if tl (queue_bidding_tasks s) = [] then []
                                 else [hd (tl (queue_bidding_tasks s))]))"
      using s' by blast
  }
qed

text \<open>
  The theorem at the dispatcher with two pending tasks: without a bid the second task
  goes to auction; with a winner the queue keeps both notices, and the status callback
  for the first task then sends the second one to auction.
\<close>

theorem auction_completion_queue_witness:
  "map_of (active_dispatch_tasks two_pending) ''Clean0'' = Some (status_of ''Clean0'' 1 [] Pending)
   \<and> keyed_by_id (active_dispatch_tasks two_pending)
   \<and> 2 \<le> terminated_tasks_max_size two_pending
   \<and> terminated_tasks_max_size two_pending < 2 ^ 31
   \<and> \<not> on_change_fn two_pending
   \<and> ''Clean0'' \<in> user_submitted_tasks two_pending
   \<and> map (\<lambda>n. task_id (notice_task_profile n)) (queue_bidding_tasks two_pending)
       = [''Clean0'', ''Clean1'']
   \<and> map (\<lambda>n. task_id (notice_task_profile n)) (started_biddings (events two_pending))
       = [''Clean0'']
   \<and> (\<exists>s'. receive_bidding_winner_cb ''Clean0'' None two_pending = Inr s'
         \<and> map (\<lambda>n. task_id (notice_task_profile n)) (queue_bidding_tasks s') = [''Clean1'']
         \<and> map (\<lambda>n. task_id (notice_task_profile n)) (started_biddings (events s'))
             = [''Clean0'', ''Clean1''])
   \<and> (\<exists>s'. receive_bidding_winner_cb ''Clean0''
               (Some \<lparr>winner_fleet_name = ''fleetA'', winner_robot_name = ''r1''\<rparr>) two_pending
             = Inr s'
         \<and> map (\<lambda>n. task_id (notice_task_profile n)) (queue_bidding_tasks s')
             = [''Clean0'', ''Clean1'']
         \<and> map (\<lambda>n. task_id (notice_task_profile n)) (started_biddings (events s'))
             = [''Clean0'']
         \<and> map (\<lambda>n. task_id (notice_task_profile n))
             (queue_bidding_tasks (task_status_cb (status_of ''Clean0'' 1 ''fleetA'' Queued) s'))
             = [''Clean1'']
         \<and> map (\<lambda>n. task_id (notice_task_profile n))
             (started_biddings
                (events (task_status_cb (status_of ''Clean0'' 1 ''fleetA'' Queued) s')))
             = [''Clean0'', ''Clean1''])"
  using auction_completion_queue
    [where s = two_pending and tid = "''Clean0''" and st = "status_of ''Clean0'' 1 [] Pending"
       and w = "\<lparr>winner_fleet_name = ''fleetA'', winner_robot_name = ''r1''\<rparr>"
       and status = "status_of ''Clean0'' 1 ''fleetA'' Queued"]
  by (simp add: two_pending_def keyed_by_id_def eval_defs)

text \<open>
  C2 as stated has the head popped on a win as well. After two submissions and a winning
  bid for the first task, which is still active, the queue still holds both notices and
  the only auction started is the first.
  The other four runs end in a call of the handler that is undefined. Without a bid and
  with an observer registered, the observer is called through the reference to the erased
  entry before the pop. With a bound of one, the second task without a bid runs the
  eviction scan on a terminal table of one entry. After a status callback for the task in
  auction has popped the queue, the handler without a bid pops the empty queue. After a
  pending task was cancelled and reported again by a fleet, it is active but not
  user-submitted: a win removes its entry before \<^verbatim>\<open>add_task\<close> reads it.
\<close>

theorem winner_keeps_queue_head_counterexample:
  "(case run [Submit 1 clean_task, Submit 5 clean_task] (make_dispatcher 2 100) of
      Inl f \<Rightarrow> False
    | Inr s1 \<Rightarrow>
        map_of (active_dispatch_tasks s1) ''Clean0'' = Some (status_of ''Clean0'' 1 [] Pending)
        \<and> map (\<lambda>n. task_id (notice_task_profile n)) (queue_bidding_tasks s1)
            = [''Clean0'', ''Clean1'']
        \<and> map (\<lambda>n. task_id (notice_task_profile n)) (started_biddings (events s1))
            = [''Clean0'']
        \<and> (case receive_bidding_winner_cb ''Clean0''
                   (Some \<lparr>winner_fleet_name = ''fleetA'', winner_robot_name = ''r1''\<rparr>) s1 of
             Inl f \<Rightarrow> False
           | Inr s2 \<Rightarrow>
               map (\<lambda>n. task_id (notice_task_profile n)) (queue_bidding_tasks s2)
                 = [''Clean0'', ''Clean1'']
               \<and> map (\<lambda>n. task_id (notice_task_profile n)) (started_biddings (events s2))
                   = [''Clean0'']))
   \<and> (case run [On_change_call True, Submit 1 clean_task, Submit 5 clean_task]
               (make_dispatcher 2 100) of
        Inl f \<Rightarrow> False
      | Inr s1 \<Rightarrow>
          map_of (active_dispatch_tasks s1) ''Clean0''
            = Some (status_of ''Clean0'' 1 [] Pending)
          \<and> receive_bidding_winner_cb ''Clean0'' None s1 = Inl Dangling_reference)
   \<and> (case run [Submit 1 clean_task, Submit 5 clean_task, Bidding_winner ''Clean0'' None]
               (make_dispatcher 2 1) of
        Inl f \<Rightarrow> False
      | Inr s1 \<Rightarrow>
          map_of (active_dispatch_tasks s1) ''Clean1''
            = Some (status_of ''Clean1'' 5 [] Pending)
          \<and> receive_bidding_winner_cb ''Clean1'' None s1 = Inl Past_the_end_iterator)
   \<and> (case run [Submit 1 clean_task, Status (status_of ''Clean0'' 1 [] Pending)]
               (make_dispatcher 2 100) of
        Inl f \<Rightarrow> False
      | Inr s1 \<Rightarrow>
          map_of (active_dispatch_tasks s1) ''Clean0''
            = Some (status_of ''Clean0'' 1 [] Pending)
          \<and> queue_bidding_tasks s1 = []
          \<and> receive_bidding_winner_cb ''Clean0'' None s1 = Inl Pop_empty_queue)
   \<and> (case run [Submit 1 clean_task, Cancel ''Clean0'' True,
                 Status (status_of ''Clean0'' 1 ''fleetA'' Queued)]
               (make_dispatcher 2 100) of
        Inl f \<Rightarrow> False
      | Inr s1 \<Rightarrow>
          map_of (active_dispatch_tasks s1) ''Clean0''
            = Some (status_of ''Clean0'' 1 ''fleetA'' Queued)
          \<and> ''Clean0'' \<notin> user_submitted_tasks s1
          \<and> receive_bidding_winner_cb ''Clean0''
               (Some \<lparr>winner_fleet_name = ''fleetA'', winner_robot_name = ''r1''\<rparr>) s1
             = Inl Dangling_reference)"
  by (simp add: eval_defs)

section \<open>Cancellation\<close>

text \<open>
  The cases of \<^verbatim>\<open>cancel_task\<close> in a state without an observer, with the active table
  keyed by ids and a bound of at least two: an id that is not in the active table gives
  false and changes no table; a Pending task is terminated as Canceled and the result is
  true; otherwise an id outside the user-submitted set gives false; otherwise a Queued task
  triggers the removal of the self-generated tasks of its fleet, the cancel is forwarded to
  the action client and the result is the client's answer; any other state gives false.
\<close>

lemma cancel_task_cases:
  assumes "keyed_by_id (active_dispatch_tasks s)"
    and "2 \<le> terminated_tasks_max_size s" "terminated_tasks_max_size s < 2 ^ 31"
  shows "(map_of (active_dispatch_tasks s) tid = None \<longrightarrow>
            (\<exists>s'. cancel_task tid ack s = Inr (False, s')
               \<and> active_dispatch_tasks s' = active_dispatch_tasks s
               \<and> terminal_dispatch_tasks s' = terminal_dispatch_tasks s
               \<and> user_submitted_tasks s' = user_submitted_tasks s))
         \<and> (\<forall>st. map_of (active_dispatch_tasks s) tid = Some st \<longrightarrow>
              (state st = Pending \<and> \<not> on_change_fn s \<longrightarrow>
                 (\<exists>s'. cancel_task tid ack s = Inr (True, s')
                    \<and> map_of (active_dispatch_tasks s') tid = None
                    \<and> map_of (terminal_dispatch_tasks s') tid = Some (st\<lparr>state := Canceled\<rparr>)))
              \<and> (state st \<noteq> Pending \<and> tid \<notin> user_submitted_tasks s \<longrightarrow>
                   (\<exists>s'. cancel_task tid ack s = Inr (False, s')
                      \<and> active_dispatch_tasks s' = active_dispatch_tasks s
                      \<and> terminal_dispatch_tasks s' = terminal_dispatch_tasks s
                      \<and> user_submitted_tasks s' = user_submitted_tasks s))
              \<and> (state st = Queued \<and> tid \<in> user_submitted_tasks s \<longrightarrow>
                   (\<exists>s'. cancel_task tid ack s = Inr (ack, s')
                      \<and> active_dispatch_tasks s' =
                          filter (\<lambda>e. \<not> self_generated_of (fleet_name st) s e)
                            (active_dispatch_tasks s)
                      \<and> last (events s') = Action_cancel_task (task_profile st)))
              \<and> (state st \<noteq> Pending \<and> state st \<noteq> Queued \<longrightarrow>
                   (\<exists>s'. cancel_task tid ack s = Inr (False, s')
                      \<and> active_dispatch_tasks s' = active_dispatch_tasks s
                      \<and> terminal_dispatch_tasks s' = terminal_dispatch_tasks s
                      \<and> user_submitted_tasks s' = user_submitted_tasks s)))"
proof (intro conjI allI impI)
  assume "map_of (active_dispatch_tasks s) tid = None"
  then show "\<exists>s'. cancel_task tid ack s = Inr (False, s')
               \<and> active_dispatch_tasks s' = active_dispatch_tasks s
               \<and> terminal_dispatch_tasks s' = terminal_dispatch_tasks s
               \<and> user_submitted_tasks s' = user_submitted_tasks s"
    by (rule cancel_absent_or_refused(1))
next
  fix st
  assume act: "map_of (active_dispatch_tasks s) tid = Some st"
  have lt: "terminated_tasks_max_size s < 2 ^ 64" using assms(3) by simp
  {
    assume "state st = Pending \<and> \<not> on_change_fn s"
    then show "\<exists>s'. cancel_task tid ack s = Inr (True, s')
            \<and> map_of (active_dispatch_tasks s') tid = None
            \<and> map_of (terminal_dispatch_tasks s') tid = Some (st\<lparr>state := Canceled\<rparr>)"
      using cancel_pending[OF act _ _ assms(1,2) lt, of ack] by blast
  next
    assume "state st \<noteq> Pending \<and> tid \<notin> user_submitted_tasks s"
    then show "\<exists>s'. cancel_task tid ack s = Inr (False, s')
                 \<and> active_dispatch_tasks s' = active_dispatch_tasks s
                 \<and> terminal_dispatch_tasks s' = terminal_dispatch_tasks s
                 \<and> user_submitted_tasks s' = user_submitted_tasks s"
      using cancel_absent_or_refused(2)[OF act, of ack] by blast
  next
    assume q: "state st = Queued \<and> tid \<in> user_submitted_tasks s"
    from cancel_queued[OF act _ _ assms(1,2) lt, of ack] q
    show "\<exists>s'. cancel_task tid ack s = Inr (ack, s')
            \<and> active_dispatch_tasks s' =
                filter (\<lambda>e. \<not> self_generated_of (fleet_name st) s e) (active_dispatch_tasks s)
            \<and> last (events s') = Action_cancel_task (task_profile st)"
      by blast
  next
    assume "state st \<noteq> Pending \<and> state st \<noteq> Queued"
    then show "\<exists>s'. cancel_task tid ack s = Inr (False, s')
                 \<and> active_dispatch_tasks s' = active_dispatch_tasks s
                 \<and> terminal_dispatch_tasks s' = terminal_dispatch_tasks s
                 \<and> user_submitted_tasks s' = user_submitted_tasks s"
      using cancel_absent_or_refused(2)[OF act, of ack] by blast
  }
qed

text \<open>
  Claim C3 has a Pending task set to Canceled, terminated, the observer notified and true
  returned. The source notifies the observer through \<^verbatim>\<open>cancel_task_status\<close>, a
  reference to the entry of the active table that \<^verbatim>\<open>terminate_task\<close> has erased by
  then (lemma \<open>cancel_pending_observer\<close>). In the first run below an observer is
  registered and a task is submitted; cancelling it while it is Pending is undefined.
  In the second run, without an observer and with \<^verbatim>\<open>terminated_tasks_max_size\<close> 1,
  the cancel of a Pending task runs the eviction scan on a terminal table of one entry.
\<close>

theorem cancel_pending_observer_evaluation:
  "(case run [On_change_call True, Submit 1 clean_task] (make_dispatcher 2 100) of
      Inl f \<Rightarrow> False
    | Inr s1 \<Rightarrow>
        on_change_fn s1
        \<and> active_dispatch_tasks s1 = [(''Clean0'', status_of ''Clean0'' 1 [] Pending)]
        \<and> terminal_dispatch_tasks s1 = []
        \<and> cancel_task ''Clean0'' True s1 = Inl Dangling_reference
        \<and> run [On_change_call True, Submit 1 clean_task, Cancel ''Clean0'' True]
            (make_dispatcher 2 100) = Inl Dangling_reference)
   \<and> (case run [Submit 1 clean_task, Submit 5 clean_task, Bidding_winner ''Clean0'' None]
               (make_dispatcher 2 1) of
        Inl f \<Rightarrow> False
      | Inr s1 \<Rightarrow>
          active_dispatch_tasks s1 = [(''Clean1'', status_of ''Clean1'' 5 [] Pending)]
          \<and> terminal_dispatch_tasks s1 = [(''Clean0'', status_of ''Clean0'' 1 [] Failed)]
          \<and> cancel_task ''Clean1'' True s1 = Inl Past_the_end_iterator)"
  by (simp add: eval_defs)

section \<open>Self-generated tasks\<close>




section \<open>Task ids\<close>

lemma digit_char_props:
  "d < 10 \<Longrightarrow> is_digit (digit_char d) \<and> digit_val (digit_char d) = d"
proof -
  assume "d < 10"
  then have "d \<in> {0, 1, 2, 3, 4, 5, 6, 7, 8, 9}" by auto
  then show ?thesis
    by (auto simp: digit_char_def is_digit_def digit_val_def)
qed

lemma decimal_value_snoc:
  "decimal_value (ds @ [c]) = 10 * decimal_value ds + digit_val c"
  by (simp add: decimal_value_def)

lemma to_string_digits: "list_all is_digit (to_string n) \<and> to_string n \<noteq> []"
proof (induction n rule: to_string.induct)
  case (1 n)
  show ?case
  proof (cases "n < 10")
    case True
    then show ?thesis
      using digit_char_props[of n] by (simp add: to_string.simps[of n])
  next
    case False
    then show ?thesis
      using "1.IH" digit_char_props[of "n mod 10"] by (simp add: to_string.simps[of n])
  qed
qed

lemma decimal_value_to_string: "decimal_value (to_string n) = n"
proof (induction n rule: to_string.induct)
  case (1 n)
  show ?case
  proof (cases "n < 10")
    case True
    then show ?thesis
      using digit_char_props[of n] by (simp add: to_string.simps[of n] decimal_value_def)
  next
    case False
    then show ?thesis
      using "1.IH" digit_char_props[of "n mod 10"]
      by (simp add: to_string.simps[of n] decimal_value_snoc)
  qed
qed

lemma to_string_inj: "to_string a = to_string b \<Longrightarrow> a = b"
  by (metis decimal_value_to_string)

lemma task_type_name_letters:
  "task_type_name t = Some nm \<Longrightarrow> list_all (\<lambda>c. \<not> is_digit c) nm"
  by (auto simp: is_digit_def split: if_splits)

lemma letters_then_digits:
  assumes "list_all (\<lambda>c. \<not> is_digit c) nm" "list_all is_digit ds"
  shows "takeWhile (\<lambda>c. \<not> is_digit c) (nm @ ds) = nm"
    and "dropWhile (\<lambda>c. \<not> is_digit c) (nm @ ds) = ds"
proof -
  have t: "takeWhile (\<lambda>c. \<not> is_digit c) ds = []"
    using assms(2) by (cases ds) auto
  have d: "dropWhile (\<lambda>c. \<not> is_digit c) ds = ds"
    using assms(2) by (cases ds) auto
  show "takeWhile (\<lambda>c. \<not> is_digit c) (nm @ ds) = nm"
    using assms(1) t by (simp add: list_all_iff)
  show "dropWhile (\<lambda>c. \<not> is_digit c) (nm @ ds) = ds"
    using assms(1) d by (simp add: list_all_iff)
qed

lemma minted_id_inj:
  assumes "task_type_name t1 = Some n1" "task_type_name t2 = Some n2"
    and "n1 @ to_string c1 = n2 @ to_string c2"
  shows "c1 = c2"
proof -
  have "dropWhile (\<lambda>c. \<not> is_digit c) (n1 @ to_string c1) = to_string c1"
    using letters_then_digits(2) task_type_name_letters[OF assms(1)] to_string_digits by blast
  moreover have "dropWhile (\<lambda>c. \<not> is_digit c) (n2 @ to_string c2) = to_string c2"
    using letters_then_digits(2) task_type_name_letters[OF assms(2)] to_string_digits by blast
  ultimately have "to_string c1 = to_string c2" using assms(3) by simp
  then show ?thesis by (rule to_string_inj)
qed


lemma remove_self_generated_counter:
  "remove_self_generated fleet todo s = Inr s' \<Longrightarrow> task_counter s' = task_counter s"
proof (induction fleet todo s rule: remove_self_generated.induct)
  case (1 fleet s)
  then show ?case by (simp add: remove_self_generated.simps)
next
  case (2 fleet it rest s)
  show ?case
  proof (cases "fst it \<notin> user_submitted_tasks s \<and> fleet = fleet_name (snd it)")
    case False
    then have "remove_self_generated fleet rest s = Inr s'"
      using "2.prems" by (auto simp: remove_self_generated.simps)
    then show ?thesis using False "2.IH"(2) by simp
  next
    case True
    let ?s1 = "s\<lparr>active_dispatch_tasks :=
                   AList.map_entry (fst it) (\<lambda>st. st\<lparr>state := Canceled\<rparr>)
                     (active_dispatch_tasks s)\<rparr>"
    let ?canceled = "(snd it)\<lparr>state := Canceled\<rparr>"
    let ?tid = "task_id (task_profile ?canceled)"
    from "2.prems" True have nohd: "\<not> (rest \<noteq> [] \<and> fst (hd rest) = ?tid)"
      by (auto simp: remove_self_generated.simps Let_def split: if_splits)
    from "2.prems" True nohd obtain s2 where s2: "terminate_task ?canceled ?s1 = Inr s2"
      and r: "remove_self_generated fleet (AList.delete ?tid rest) s2 = Inr s'"
      by (auto simp: remove_self_generated.simps Let_def split: if_splits sum.splits)
    have "task_counter s2 = task_counter s"
      using terminate_task_frame(4)[OF s2] by simp
    moreover have "task_counter s' = task_counter s2"
      using "2.IH"(1)[OF refl refl _ refl refl refl nohd s2 r] True by simp
    ultimately show ?thesis by simp
  qed
qed

lemma terminate_task_quiet:
  assumes "terminate_task st s = Inr s'"
  shows "minted_ids (events s') = minted_ids (events s) \<and> task_counter s' = task_counter s"
proof -
  from terminate_task_events[OF assms] obtain es where
    "events s' = events s @ es" "list_all housekeeping es" by auto
  then show ?thesis
    using housekeeping_quiet[of es] terminate_task_frame(4)[OF assms]
    by (simp add: minted_ids_append)
qed

lemma remove_self_generated_quiet:
  assumes "remove_self_generated fleet todo s = Inr s'"
  shows "minted_ids (events s') = minted_ids (events s) \<and> task_counter s' = task_counter s"
proof -
  from remove_self_generated_events[OF assms] obtain es where
    "events s' = events s @ es" "list_all housekeeping es" by auto
  then show ?thesis
    using housekeeping_quiet[of es] remove_self_generated_counter[OF assms]
    by (simp add: minted_ids_append)
qed

lemma cancel_queued_result:
  assumes "cancel_task tid ack s = Inr (ok, s')"
    and "map_of (active_dispatch_tasks s) tid = Some st"
    and "state st \<noteq> Pending" "tid \<in> user_submitted_tasks s" "state st = Queued"
  shows "\<exists>s2. remove_self_generated (fleet_name st) (active_dispatch_tasks s)
                 (emit (Log WARN ''Cancel task: [%s]'' [tid]) s) = Inr s2
           \<and> s' = emit (Action_cancel_task
                          (task_profile (projr (referenced_status tid s2)))) s2"
  using assms
  by (auto simp: cancel_task_def Let_def emit_fields split: sum.splits)

lemma cancel_task_quiet:
  assumes "cancel_task tid ack s = Inr (ok, s')"
  shows "minted_ids (events s') = minted_ids (events s) \<and> task_counter s' = task_counter s"
proof (cases "map_of (active_dispatch_tasks s) tid")
  case None
  then show ?thesis
    using assms by (auto simp: cancel_task_def emit_def minted_ids_append)
next
  case (Some st)
  let ?s1 = "emit (Log WARN ''Cancel task: [%s]'' [tid]) s"
  have q1: "minted_ids (events ?s1) = minted_ids (events s) \<and> task_counter ?s1 = task_counter s"
    by (simp add: emit_def minted_ids_append)
  consider (pending) "state st = Pending"
    | (queued) "state st \<noteq> Pending" "tid \<in> user_submitted_tasks s" "state st = Queued"
    | (refused) "state st \<noteq> Pending" "tid \<notin> user_submitted_tasks s \<or> state st \<noteq> Queued"
    by blast
  then show ?thesis
  proof cases
    case pending
    let ?canceled = "st\<lparr>state := Canceled\<rparr>"
    let ?s2 = "?s1\<lparr>active_dispatch_tasks :=
                    AList.map_entry tid (\<lambda>st. st\<lparr>state := Canceled\<rparr>)
                      (active_dispatch_tasks ?s1)\<rparr>"
    from assms Some pending obtain s3 where s3: "terminate_task ?canceled ?s2 = Inr s3"
      and s': "notify_referenced tid s3 = Inr s'"
      by (auto simp: cancel_task_def Let_def split: sum.splits)
    have "minted_ids (events s3) = minted_ids (events ?s2) \<and> task_counter s3 = task_counter ?s2"
      using terminate_task_quiet[OF s3] .
    then show ?thesis
      using notify_referenced_result[OF s'] by (auto simp: emit_def minted_ids_append)
  next
    case queued
    from cancel_queued_result[OF assms Some queued] obtain s2 where
      s2: "remove_self_generated (fleet_name st) (active_dispatch_tasks s) ?s1 = Inr s2"
      and s': "s' = emit (Action_cancel_task
                            (task_profile (projr (referenced_status tid s2)))) s2"
      by blast
    from remove_self_generated_quiet[OF s2] q1 show ?thesis
      using s' by (simp add: emit_def minted_ids_append)
  next
    case refused
    then show ?thesis
      using assms Some
      by (auto simp: cancel_task_def Let_def emit_def minted_ids_append split: if_splits)
  qed
qed

lemma receive_bidding_winner_cb_quiet:
  assumes "receive_bidding_winner_cb tid winner s = Inr s'"
  shows "minted_ids (events s') = minted_ids (events s) \<and> task_counter s' = task_counter s"
proof (cases "map_of (active_dispatch_tasks s) tid")
  case None
  then show ?thesis using assms by (simp add: receive_bidding_winner_cb_def)
next
  case (Some st)
  show ?thesis
  proof (cases winner)
    case None
    let ?failed = "st\<lparr>state := Failed\<rparr>"
    let ?s1 = "emit (Log WARN
      ''Dispatcher Bidding Result: task [%s] has no submissions during bidding, Task Failed''
      [tid]) s"
    let ?s2 = "?s1\<lparr>active_dispatch_tasks :=
         AList.map_entry tid (\<lambda>st. st\<lparr>state := Failed\<rparr>) (active_dispatch_tasks ?s1)\<rparr>"
    from assms Some None obtain s3 n3 s4 where s3: "terminate_task ?failed ?s2 = Inr s3"
      and n3: "notify_referenced tid s3 = Inr n3"
      and s4: "pop_bidding_queue n3 = Inr s4"
      and s': "s' = start_next_bidding s4"
      by (auto simp: receive_bidding_winner_cb_def Let_def split: sum.splits)
    have "minted_ids (events s3) = minted_ids (events ?s2) \<and> task_counter s3 = task_counter ?s2"
      using terminate_task_quiet[OF s3] .
    moreover have "minted_ids (events n3) = minted_ids (events s3)
                     \<and> task_counter n3 = task_counter s3"
      using notify_referenced_result[OF n3] by (auto simp: emit_def minted_ids_append)
    moreover have "minted_ids (events s4) = minted_ids (events n3)
                     \<and> task_counter s4 = task_counter n3"
      using s4 by (auto simp: pop_bidding_queue_def split: list.splits)
    ultimately show ?thesis
      using s' by (simp add: emit_def start_next_bidding_def minted_ids_append)
  next
    case (Some w)
    let ?A = "AList.map_entry tid (\<lambda>st. st\<lparr>fleet_name := winner_fleet_name w\<rparr>)
                (active_dispatch_tasks s)"
    let ?s2 = "emit (Log INFO
      ''Dispatcher Bidding Result: task [%s] is accepted by fleet adapter [%s]''
      [tid, winner_fleet_name w]) (s\<lparr>active_dispatch_tasks := ?A\<rparr>)"
    from assms \<open>map_of (active_dispatch_tasks s) tid = Some st\<close> Some obtain s3 e where
      s3: "remove_self_generated (winner_fleet_name w) (active_dispatch_tasks ?s2) ?s2 = Inr s3"
      and s': "s' = emit e s3" "\<exists>f p h. e = Action_add_task f p h"
      by (auto simp: receive_bidding_winner_cb_def Let_def split: sum.splits)
    from remove_self_generated_quiet[OF s3] show ?thesis
      using s' by (auto simp: emit_def minted_ids_append)
  qed
qed

lemma step_quiet:
  assumes "step c s = Inr s'" "\<And>now descr. c \<noteq> Submit now descr"
  shows "minted_ids (events s') = minted_ids (events s) \<and> task_counter s' = task_counter s"
proof (cases c)
  case (Submit now descr)
  then show ?thesis using assms(2) by simp
next
  case (Cancel tid ack)
  then obtain ok where "cancel_task tid ack s = Inr (ok, s')"
    using assms(1) by (auto split: sum.splits)
  then show ?thesis by (rule cancel_task_quiet)
next
  case (Bidding_winner tid winner)
  then show ?thesis using assms(1) receive_bidding_winner_cb_quiet by simp
next
  case (Status status)
  then show ?thesis
    using assms(1)
    by (auto simp: task_status_cb_def Let_def on_change_def emit_def start_next_bidding_def
          minted_ids_append split: option.splits)
next
  case (Terminate status)
  then show ?thesis using assms(1) terminate_task_quiet by simp
next
  case (Client_write status)
  then show ?thesis using assms(1) by auto
next
  case (On_change_call callable)
  then show ?thesis using assms(1) by (auto simp: set_on_change_def)
qed

lemma submit_task_valid:
  assumes "task_type_name (task_type descr) = Some nm"
  shows "\<exists>s'. submit_task now descr s = (Some (nm @ to_string (task_counter s)), s')
           \<and> task_counter s' = (task_counter s + 1) mod 2 ^ 64
           \<and> minted_ids (events s') = minted_ids (events s) @ [nm @ to_string (task_counter s)]"
  using assms
  by (auto simp: submit_task_def Let_def emit_def on_change_def minted_ids_append size_t_max_def
        simp del: task_type_name.simps)

lemma submit_task_invalid:
  assumes "task_type_name (task_type descr) = None"
  shows "\<exists>s'. submit_task now descr s = (None, s') \<and> task_counter s' = task_counter s
           \<and> minted_ids (events s') = minted_ids (events s)"
  using assms
  by (auto simp: submit_task_def emit_def minted_ids_append simp del: task_type_name.simps)


lemma snd_submit_task_srv: "snd (submit_task_srv now descr s) = snd (submit_task now descr s)"
  by (simp add: submit_task_srv_def Let_def split: prod.splits option.splits)

lemma minted_before_mono:
  assumes "minted_before c tid" "c \<le> c'"
  shows "minted_before c' tid"
proof -
  from assms(1) obtain t nm k where "task_type_name t = Some nm" "k < c" "tid = nm @ to_string k"
    unfolding minted_before_def by blast
  moreover have "k < c'" using \<open>k < c\<close> assms(2) by simp
  ultimately show ?thesis unfolding minted_before_def by blast
qed

lemma step_minted_ids:
  assumes st: "step c s = Inr s1" and room: "task_counter s + 1 < 2 ^ 64"
    and d: "distinct (minted_ids (events s))"
    and b: "list_all (minted_before (task_counter s)) (minted_ids (events s))"
  shows "distinct (minted_ids (events s1))
         \<and> list_all (minted_before (task_counter s1)) (minted_ids (events s1))
         \<and> task_counter s1 \<le> task_counter s + 1"
proof (cases "\<exists>now descr. c = Submit now descr")
  case False
  then have "minted_ids (events s1) = minted_ids (events s) \<and> task_counter s1 = task_counter s"
    using step_quiet[OF st] by blast
  then show ?thesis using d b by simp
next
  case True
  then obtain now descr where c: "c = Submit now descr" by blast
  then have s1: "s1 = snd (submit_task now descr s)"
    using st by (simp add: snd_submit_task_srv)
  show ?thesis
  proof (cases "task_type_name (task_type descr)")
    case None
    from submit_task_invalid[OF None, of now s] s1
    have "minted_ids (events s1) = minted_ids (events s) \<and> task_counter s1 = task_counter s"
      by auto
    then show ?thesis using d b by simp
  next
    case (Some nm)
    let ?new = "nm @ to_string (task_counter s)"
    from submit_task_valid[OF Some, of now s] s1 room
    have c1: "task_counter s1 = task_counter s + 1"
      and m1: "minted_ids (events s1) = minted_ids (events s) @ [?new]"
      by auto
    have fresh: "?new \<notin> set (minted_ids (events s))"
    proof
      assume "?new \<in> set (minted_ids (events s))"
      then have "minted_before (task_counter s) ?new"
        using b by (simp add: list_all_iff)
      then obtain t nm' k where "task_type_name t = Some nm'" "k < task_counter s"
        "?new = nm' @ to_string k"
        unfolding minted_before_def by blast
      then have "task_counter s = k"
        using minted_id_inj[OF Some, of t nm' "task_counter s" k] by simp
      then show False using \<open>k < task_counter s\<close> by simp
    qed
    have "minted_before (task_counter s + 1) ?new"
      unfolding minted_before_def using Some by (intro exI[of _ "task_type descr"]) auto
    moreover have "list_all (minted_before (task_counter s + 1)) (minted_ids (events s))"
      using b minted_before_mono[of "task_counter s" _ "task_counter s + 1"]
      by (simp add: list_all_iff)
    ultimately show ?thesis using c1 m1 d fresh by simp
  qed
qed

lemma run_minted_ids:
  assumes "run calls s = Inr s'" "task_counter s + length calls < 2 ^ 64"
    and "distinct (minted_ids (events s))"
    and "list_all (minted_before (task_counter s)) (minted_ids (events s))"
  shows "distinct (minted_ids (events s'))
         \<and> list_all (minted_before (task_counter s')) (minted_ids (events s'))
         \<and> task_counter s' \<le> task_counter s + length calls"
  using assms
proof (induction calls arbitrary: s)
  case Nil
  then show ?case by simp
next
  case (Cons c cs)
  from Cons.prems(1) obtain s1 where s1: "step c s = Inr s1" and r: "run cs s1 = Inr s'"
    by (auto split: sum.splits)
  have room: "task_counter s + 1 < 2 ^ 64" using Cons.prems(2) by simp
  note inv1 = step_minted_ids[OF s1 room Cons.prems(3,4)]
  have "task_counter s1 + length cs < 2 ^ 64" using inv1 Cons.prems(2) by simp
  from Cons.IH[OF r this] inv1
  show ?case by auto
qed

text \<open>
  Claim C8. A submission with a known type returns the name of the type followed by the
  decimal digits of the current counter and logs that id; the counter is then one greater
  (it is a \<^verbatim>\<open>std::size_t\<close>, so this is for a counter below \<open>2 ^ 64 - 1\<close>). In every run
  of fewer than \<open>2 ^ 64\<close> calls from a fresh dispatcher, whatever the calls are, the ids
  minted are pairwise distinct.
\<close>

theorem minted_task_ids:
  "(task_type_name (task_type descr) = Some nm \<longrightarrow>
      (\<exists>s1. submit_task now descr s = (Some (nm @ to_string (task_counter s)), s1)
         \<and> minted_ids (events s1) = minted_ids (events s) @ [nm @ to_string (task_counter s)]
         \<and> (task_counter s + 1 < 2 ^ 64 \<longrightarrow> task_counter s1 = task_counter s + 1)))
   \<and> (run calls (make_dispatcher window max_size) = Inr s' \<and> length calls < 2 ^ 64 \<longrightarrow>
        distinct (minted_ids (events s')))"
proof (intro conjI impI)
  assume h: "task_type_name (task_type descr) = Some nm"
  from submit_task_valid[OF h, of now s]
  show "\<exists>s1. submit_task now descr s = (Some (nm @ to_string (task_counter s)), s1)
         \<and> minted_ids (events s1) = minted_ids (events s) @ [nm @ to_string (task_counter s)]
         \<and> (task_counter s + 1 < 2 ^ 64 \<longrightarrow> task_counter s1 = task_counter s + 1)"
    by auto
next
  assume h: "run calls (make_dispatcher window max_size) = Inr s' \<and> length calls < 2 ^ 64"
  have "distinct (minted_ids (events s'))
         \<and> list_all (minted_before (task_counter s')) (minted_ids (events s'))
         \<and> task_counter s' \<le> task_counter (make_dispatcher window max_size) + length calls"
    using h by (intro run_minted_ids) (simp_all add: make_dispatcher_def)
  then show "distinct (minted_ids (events s'))" by simp
qed

text \<open>
  The theorem at the dispatcher with two pending tasks and at a run with submissions of
  two types, an auction without bids and a submission of unknown type.
\<close>

theorem minted_task_ids_witness:
  "task_type_name (task_type clean_task) = Some ''Clean''
   \<and> task_counter two_pending + 1 < 2 ^ 64
   \<and> fst (submit_task 9 clean_task two_pending) = Some ''Clean2''
   \<and> task_counter two_pending = 2
   \<and> task_counter (snd (submit_task 9 clean_task two_pending)) = 3
   \<and> (\<exists>s'. run [Submit 1 clean_task, Submit 5 \<lparr>task_type = 1, start_time = 0, priority = 0\<rparr>,
                 Bidding_winner ''Clean0'' None, Submit 7 \<lparr>task_type = 9, start_time = 0, priority = 0\<rparr>,
                 Submit 8 clean_task] (make_dispatcher 2 100) = Inr s'
         \<and> minted_ids (events s') = [''Clean0'', ''Loop1'', ''Clean2'']
         \<and> distinct (minted_ids (events s')))"
  using minted_task_ids
    [where descr = clean_task and nm = "''Clean''" and s = two_pending and now = 9
       and calls = "[Submit 1 clean_task, Submit 5 \<lparr>task_type = 1, start_time = 0, priority = 0\<rparr>,
                 Bidding_winner ''Clean0'' None, Submit 7 \<lparr>task_type = 9, start_time = 0, priority = 0\<rparr>,
                 Submit 8 clean_task]"
       and window = 2 and max_size = 100]
  by (simp add: two_pending_def eval_defs)

section \<open>Keys of the tables\<close>

text \<open>
  In every run from a fresh dispatcher the entries of both tables are stored under the ids
  of their statuses, without duplicates: the hypothesis on the active table in the
  theorems on cancellation, on the auction handler and on the removal of self-generated
  tasks holds in every state a run reaches.
\<close>

lemma keyed_by_id_update:
  assumes "keyed_by_id tasks" "task_id (task_profile st) = k"
  shows "keyed_by_id (AList.update k st tasks)"
proof -
  have "list_all (\<lambda>e. task_id (task_profile (snd e)) = fst e) (AList.update k st tasks)"
    if "list_all (\<lambda>e. task_id (task_profile (snd e)) = fst e) tasks"
    using that assms(2) by (induction tasks) auto
  then show ?thesis
    using assms(1) by (simp add: keyed_by_id_def distinct_update)
qed

lemma keyed_by_id_delete: "keyed_by_id tasks \<Longrightarrow> keyed_by_id (AList.delete k tasks)"
  by (simp add: keyed_by_id_def distinct_delete) (simp add: AList.delete_eq list_all_iff)

lemma tables_keyed_emit [simp]: "tables_keyed (emit e s) = tables_keyed s"
  by (simp add: tables_keyed_def emit_def)

lemma tables_keyed_on_change [simp]: "tables_keyed (on_change st s) = tables_keyed s"
  by (simp add: on_change_def)

lemma terminate_task_keyed:
  assumes "terminate_task st s = Inr s'" "tables_keyed s"
  shows "tables_keyed s'"
proof -
  have a: "keyed_by_id (active_dispatch_tasks s')"
    using terminate_task_frame(1)[OF assms(1)] assms(2)
    by (simp add: tables_keyed_def keyed_by_id_delete)
  have "keyed_by_id (terminal_dispatch_tasks s')"
    using terminate_task_result[OF assms(1)] assms(2)
    by (auto simp: tables_keyed_def intro!: keyed_by_id_update keyed_by_id_delete)
  then show ?thesis using a by (simp add: tables_keyed_def)
qed

lemma remove_self_generated_keyed:
  "remove_self_generated fleet todo s = Inr s' \<Longrightarrow> tables_keyed s \<Longrightarrow> tables_keyed s'"
proof (induction fleet todo s rule: remove_self_generated.induct)
  case (1 fleet s)
  then show ?case by (simp add: remove_self_generated.simps)
next
  case (2 fleet it rest s)
  show ?case
  proof (cases "fst it \<notin> user_submitted_tasks s \<and> fleet = fleet_name (snd it)")
    case False
    then have "remove_self_generated fleet rest s = Inr s'"
      using "2.prems"(1) by (auto simp: remove_self_generated.simps)
    then show ?thesis using False "2.IH"(2) "2.prems"(2) by simp
  next
    case True
    let ?s1 = "s\<lparr>active_dispatch_tasks :=
                   AList.map_entry (fst it) (\<lambda>st. st\<lparr>state := Canceled\<rparr>)
                     (active_dispatch_tasks s)\<rparr>"
    let ?canceled = "(snd it)\<lparr>state := Canceled\<rparr>"
    let ?tid = "task_id (task_profile ?canceled)"
    from "2.prems"(1) True have nohd: "\<not> (rest \<noteq> [] \<and> fst (hd rest) = ?tid)"
      by (auto simp: remove_self_generated.simps Let_def split: if_splits)
    from "2.prems"(1) True nohd obtain s2 where s2: "terminate_task ?canceled ?s1 = Inr s2"
      and r: "remove_self_generated fleet (AList.delete ?tid rest) s2 = Inr s'"
      by (auto simp: remove_self_generated.simps Let_def split: if_splits sum.splits)
    have "tables_keyed ?s1"
      using "2.prems"(2) by (simp add: tables_keyed_def keyed_by_id_map_entry)
    then have "tables_keyed s2" using terminate_task_keyed[OF s2] by simp
    then show ?thesis
      using "2.IH"(1)[OF refl refl _ refl refl refl nohd s2 r] True by simp
  qed
qed

lemma step_keyed:
  assumes "step c s = Inr s'" "tables_keyed s"
  shows "tables_keyed s'"
proof (cases c)
  case (Submit now descr)
  then have s': "s' = snd (submit_task now descr s)"
    using assms(1) by (simp add: snd_submit_task_srv)
  show ?thesis
  proof (cases "task_type_name (task_type descr)")
    case None
    then show ?thesis
      using s' assms(2) by (simp add: submit_task_def del: task_type_name.simps)
  next
    case (Some nm)
    then show ?thesis
      using s' assms(2)
      by (auto simp: submit_task_def Let_def tables_keyed_def emit_def on_change_def
            intro!: keyed_by_id_update simp del: task_type_name.simps)
  qed
next
  case (Cancel tid ack)
  then obtain ok where c: "cancel_task tid ack s = Inr (ok, s')"
    using assms(1) by (auto split: sum.splits)
  show ?thesis
  proof (cases "map_of (active_dispatch_tasks s) tid")
    case None
    then show ?thesis using c assms(2) by (auto simp: cancel_task_def)
  next
    case (Some st)
    let ?s1 = "emit (Log WARN ''Cancel task: [%s]'' [tid]) s"
    consider (pending) "state st = Pending"
      | (queued) "state st \<noteq> Pending" "tid \<in> user_submitted_tasks s" "state st = Queued"
      | (refused) "state st \<noteq> Pending" "tid \<notin> user_submitted_tasks s \<or> state st \<noteq> Queued"
      by blast
    then show ?thesis
    proof cases
      case pending
      let ?canceled = "st\<lparr>state := Canceled\<rparr>"
      let ?s2 = "?s1\<lparr>active_dispatch_tasks :=
                      AList.map_entry tid (\<lambda>st. st\<lparr>state := Canceled\<rparr>)
                        (active_dispatch_tasks ?s1)\<rparr>"
      from c Some pending obtain s3 where s3: "terminate_task ?canceled ?s2 = Inr s3"
        and s': "notify_referenced tid s3 = Inr s'"
        by (auto simp: cancel_task_def Let_def split: sum.splits)
      have "tables_keyed ?s2"
        using assms(2) by (simp add: tables_keyed_def keyed_by_id_map_entry emit_def)
      then show ?thesis
        using terminate_task_keyed[OF s3] notify_referenced_result[OF s'] by auto
    next
      case queued
      from cancel_queued_result[OF c Some queued] obtain s2 where
        s2: "remove_self_generated (fleet_name st) (active_dispatch_tasks s) ?s1 = Inr s2"
        and s': "s' = emit (Action_cancel_task
                              (task_profile (projr (referenced_status tid s2)))) s2"
        by blast
      have "tables_keyed ?s1" using assms(2) by simp
      then show ?thesis using remove_self_generated_keyed[OF s2] s' by simp
    next
      case refused
      then show ?thesis
        using c Some assms(2)
        by (auto simp: cancel_task_def Let_def emit_def tables_keyed_def split: if_splits)
    qed
  qed
next
  case (Bidding_winner tid winner)
  then have r: "receive_bidding_winner_cb tid winner s = Inr s'" using assms(1) by simp
  show ?thesis
  proof (cases "map_of (active_dispatch_tasks s) tid")
    case None
    then show ?thesis using r assms(2) by (simp add: receive_bidding_winner_cb_def)
  next
    case (Some st)
    show ?thesis
    proof (cases winner)
      case None
      let ?failed = "st\<lparr>state := Failed\<rparr>"
      let ?s1 = "emit (Log WARN
        ''Dispatcher Bidding Result: task [%s] has no submissions during bidding, Task Failed''
        [tid]) s"
      let ?s2 = "?s1\<lparr>active_dispatch_tasks :=
           AList.map_entry tid (\<lambda>st. st\<lparr>state := Failed\<rparr>) (active_dispatch_tasks ?s1)\<rparr>"
      from r Some None obtain s3 n3 s4 where s3: "terminate_task ?failed ?s2 = Inr s3"
        and n3: "notify_referenced tid s3 = Inr n3"
        and s4: "pop_bidding_queue n3 = Inr s4"
        and s': "s' = start_next_bidding s4"
        by (auto simp: receive_bidding_winner_cb_def Let_def split: sum.splits)
      have "tables_keyed ?s2"
        using assms(2) by (simp add: tables_keyed_def keyed_by_id_map_entry emit_def)
      then have "tables_keyed n3"
        using terminate_task_keyed[OF s3] notify_referenced_result[OF n3] by auto
      then have "tables_keyed s4"
        using s4 by (auto simp: pop_bidding_queue_def tables_keyed_def split: list.splits)
      then show ?thesis using s' by (simp add: start_next_bidding_def)
    next
      case (Some w)
      let ?A = "AList.map_entry tid (\<lambda>st. st\<lparr>fleet_name := winner_fleet_name w\<rparr>)
                  (active_dispatch_tasks s)"
      let ?s2 = "emit (Log INFO
        ''Dispatcher Bidding Result: task [%s] is accepted by fleet adapter [%s]''
        [tid, winner_fleet_name w]) (s\<lparr>active_dispatch_tasks := ?A\<rparr>)"
      from r \<open>map_of (active_dispatch_tasks s) tid = Some st\<close> Some obtain s3 e where
        s3: "remove_self_generated (winner_fleet_name w) (active_dispatch_tasks ?s2) ?s2 = Inr s3"
        and s': "s' = emit e s3"
        by (auto simp: receive_bidding_winner_cb_def Let_def split: sum.splits)
      have "tables_keyed ?s2"
        using assms(2) by (simp add: tables_keyed_def keyed_by_id_map_entry emit_def)
      then show ?thesis using remove_self_generated_keyed[OF s3] s' by simp
    qed
  qed
next
  case (Status status)
  then show ?thesis
    using assms
    by (auto simp: task_status_cb_def Let_def tables_keyed_def emit_def on_change_def
          start_next_bidding_def intro!: keyed_by_id_update split: option.splits)
next
  case (Terminate status)
  then show ?thesis using assms terminate_task_keyed by simp
next
  case (Client_write status)
  then show ?thesis
    using assms by (auto simp: tables_keyed_def intro!: keyed_by_id_map_entry)
next
  case (On_change_call callable)
  then show ?thesis
    using assms by (auto simp: tables_keyed_def set_on_change_def)
qed

lemma run_keyed:
  "run calls s = Inr s' \<Longrightarrow> tables_keyed s \<Longrightarrow> tables_keyed s'"
proof (induction calls arbitrary: s)
  case Nil
  then show ?case by simp
next
  case (Cons c cs)
  from Cons.prems(1) obtain s1 where s1: "step c s = Inr s1" and r: "run cs s1 = Inr s'"
    by (auto split: sum.splits)
  from step_keyed[OF s1 Cons.prems(2)] Cons.IH[OF r] show ?case by simp
qed

lemma reachable_tables_keyed:
  "run calls (make_dispatcher window max_size) = Inr s \<Longrightarrow>
   keyed_by_id (active_dispatch_tasks s) \<and> keyed_by_id (terminal_dispatch_tasks s)"
  using run_keyed[of calls "make_dispatcher window max_size" s]
  by (simp add: tables_keyed_def make_dispatcher_def keyed_by_id_def)

section \<open>The two tables\<close>

text \<open>
  Claim C1 says that no id is in the active and the terminal table at once, and that a
  status callback for an id of the terminal table does not put it back into the active
  table. \<^verbatim>\<open>task_status_cb\<close> looks the id up in the active table only. In the run
  below a task is won, completed and terminated; when the fleet reports the completed
  task once more, the id is in both tables.
\<close>

theorem status_callback_readmits_terminated_evaluation:
  "(case run completed_task_calls (make_dispatcher 2 100) of
      Inl f \<Rightarrow> False
    | Inr s1 \<Rightarrow>
        map fst (active_dispatch_tasks s1) = []
        \<and> map fst (terminal_dispatch_tasks s1) = [''Clean0'']
        \<and> map fst (active_dispatch_tasks
              (task_status_cb (status_of ''Clean0'' 1 ''fleetA'' Completed) s1)) = [''Clean0'']
        \<and> map fst (terminal_dispatch_tasks
              (task_status_cb (status_of ''Clean0'' 1 ''fleetA'' Completed) s1)) = [''Clean0''])"
  by (simp add: completed_task_calls_def eval_defs)

section \<open>Acknowledgement of dispatch requests\<close>

lemma published_acks_append:
  "published_acks (xs @ ys) = published_acks xs @ published_acks ys"
  by (induction xs rule: published_acks.induct) auto

lemma published_acks_emit_log [simp]:
  "published_acks (fleet_events (fleet_emit (Fleet_log sev fmt args) s))
     = published_acks (fleet_events s)"
  by (simp add: fleet_emit_def published_acks_append)

lemma published_acks_publish [simp]:
  "published_acks (fleet_events (publish_ack msg ok s))
     = published_acks (fleet_events s) @ [\<lparr>dispatch_request = msg, ack_success = ok\<rparr>]"
  by (simp add: publish_ack_def fleet_emit_def published_acks_append)

lemma fleet_emit_fields [simp]:
  "task_managers (fleet_emit e s) = task_managers s"
  "name (fleet_emit e s) = name s"
  "cancelled_task_ids (fleet_emit e s) = cancelled_task_ids s"
  "assigned_requests (fleet_emit e s) = assigned_requests s"
  "generated_requests (fleet_emit e s) = generated_requests s"
  "bid_notice_assignments (fleet_emit e s) = bid_notice_assignments s"
  by (simp_all add: fleet_emit_def)

lemma all_executed_tasks_emit [simp]:
  "all_executed_tasks (fleet_emit e s) = all_executed_tasks s"
  by (simp add: all_executed_tasks_def)

lemma allocate_tasks_frame:
  assumes "allocate_tasks task_planner now new_request ignore_request s = (res, s1)"
  shows "task_managers s1 = task_managers s
         \<and> published_acks (fleet_events s1) = published_acks (fleet_events s)
         \<and> (\<forall>a. res = Some a \<longrightarrow>
               (\<exists>rs. plan task_planner now (map expected_finish_state (task_managers s)) rs
                       = Inr a))"
  using assms
  by (auto simp: allocate_tasks_def Let_def split: option.splits sum.splits if_splits prod.splits)

lemma set_queues_defined:
  "length ts \<le> length rows \<Longrightarrow> \<exists>mgrs. set_queues ts rows = Inr mgrs"
proof (induction ts rows rule: set_queues.induct)
  case (1 rows)
  then show ?case by simp
next
  case (2 t ts)
  then show ?case by simp
next
  case (3 t ts row rows)
  then show ?case by auto
qed


lemma dispatch_cancel_acks_once:
  assumes contract: "\<And>t sts rs a. plan task_planner t sts rs = Inr a \<Longrightarrow> length a = length sts"
  shows "\<exists>s' ok. dispatch_cancel task_planner now msg s = Inr s'
           \<and> published_acks (fleet_events s') =
               published_acks (fleet_events s) @ [\<lparr>dispatch_request = msg, ack_success = ok\<rparr>]"
proof -
  let ?tid = "task_id (request_task_profile msg)"
  consider (already) "?tid \<in> cancelled_task_ids s"
    | (unassigned) "?tid \<notin> cancelled_task_ids s" "assigned_requests s ?tid = None"
    | (executed) r where "?tid \<notin> cancelled_task_ids s" "assigned_requests s ?tid = Some r"
        "?tid \<in> all_executed_tasks s"
    | (replan) r where "?tid \<notin> cancelled_task_ids s" "assigned_requests s ?tid = Some r"
        "?tid \<notin> all_executed_tasks s"
    by (cases "assigned_requests s ?tid") auto
  then show ?thesis
  proof cases
    case already
    then show ?thesis by (auto simp: dispatch_cancel_def)
  next
    case unassigned
    then show ?thesis by (auto simp: dispatch_cancel_def)
  next
    case executed
    then show ?thesis by (auto simp: dispatch_cancel_def)
  next
    case replan
    obtain res s1 where al: "allocate_tasks task_planner now None (Some r) s = (res, s1)"
      by (cases "allocate_tasks task_planner now None (Some r) s") auto
    note fr = allocate_tasks_frame[OF al]
    show ?thesis
    proof (cases res)
      case None
      then show ?thesis using replan al fr by (auto simp: dispatch_cancel_def)
    next
      case (Some a)
      then have "length a = length (task_managers s1)"
        using fr contract by (metis length_map)
      then obtain mgrs where mgrs: "set_queues (task_managers s1) a = Inr mgrs"
        using set_queues_defined[of "task_managers s1" a] by auto
      show ?thesis
        using replan al Some mgrs fr
        by (auto simp: dispatch_cancel_def Let_def fleet_emit_def publish_ack_def
              published_acks_append)
    qed
  qed
qed

lemma dispatch_add_acks_once:
  assumes contract: "\<And>t sts rs a. plan task_planner t sts rs = Inr a \<Longrightarrow> length a = length sts"
  shows "\<exists>s' ok. dispatch_add task_planner now msg s = Inr s'
           \<and> published_acks (fleet_events s') =
               published_acks (fleet_events s) @ [\<lparr>dispatch_request = msg, ack_success = ok\<rparr>]"
proof -
  let ?tid = "task_id (request_task_profile msg)"
  show ?thesis
  proof (cases "bid_notice_assignments s ?tid")
    case None
    then show ?thesis by (auto simp: dispatch_add_def)
  next
    case (Some assignments)
    show ?thesis
    proof (cases "length assignments \<noteq> length (task_managers s)")
      case True
      then show ?thesis using Some by (auto simp: dispatch_add_def Let_def)
    next
      case False
      then have len: "length assignments = length (task_managers s)" by simp
      show ?thesis
      proof (cases "generated_requests s ?tid")
        case None
        then show ?thesis using Some len by (auto simp: dispatch_add_def Let_def)
      next
        case (Some request)
        let ?s1 = "fleet_emit (Fleet_log INFO
                     ''Bid for task_id:[%s] awarded to fleet [%s]. Processing request...''
                     [?tid, name s]) s"
        show ?thesis
        proof (cases "is_valid_assignments assignments ?s1")
          case True
          obtain mgrs where mgrs: "set_queues (task_managers ?s1) assignments = Inr mgrs"
            using set_queues_defined[of "task_managers ?s1" assignments] len by auto
          show ?thesis
            using \<open>bid_notice_assignments s ?tid = Some assignments\<close> Some len True mgrs
            by (auto simp: dispatch_add_def Let_def fleet_emit_def publish_ack_def
                  published_acks_append)
        next
          case False
          obtain res s2 where
            al: "allocate_tasks task_planner now (Some request) None ?s1 = (res, s2)"
            by (cases "allocate_tasks task_planner now (Some request) None ?s1") auto
          note fr = allocate_tasks_frame[OF al]
          show ?thesis
          proof (cases res)
            case None
            then show ?thesis
              using \<open>bid_notice_assignments s ?tid = Some assignments\<close> Some len False al fr
              by (auto simp: dispatch_add_def Let_def)
          next
            case (Some a)
            then have "length a = length (task_managers s2)"
              using fr contract by (metis fleet_emit_fields(1) length_map)
            then obtain mgrs where mgrs: "set_queues (task_managers s2) a = Inr mgrs"
              using set_queues_defined[of "task_managers s2" a] by auto
            show ?thesis
              using \<open>bid_notice_assignments s ?tid = Some assignments\<close>
                \<open>generated_requests s ?tid = Some request\<close> len False al Some mgrs fr
              by (auto simp: dispatch_add_def Let_def fleet_emit_def publish_ack_def
                    published_acks_append)
          qed
        qed
      qed
    qed
  qed
qed

text \<open>
  Claim C9. A CANCEL request addressed to the fleet for an id in the set of cancelled ids
  is acknowledged with success and changes nothing but the log and the published
  acknowledgement: the planner is not called and no queue is set. For an id that is not
  yet cancelled, a CANCEL request is acknowledged without success when the id is not in
  \<^verbatim>\<open>assigned_requests\<close> or when a task manager reports it as executed; again only the
  log and the acknowledgement are added.
\<close>

theorem cancel_request_acks:
  assumes "request_fleet_name msg = name s" "request_method msg = CANCEL"
  shows "(task_id (request_task_profile msg) \<in> cancelled_task_ids s \<longrightarrow>
            dispatch_request_cb task_planner now msg s =
              Inr (s\<lparr>fleet_events := fleet_events s @
                     [Fleet_log WARN ''Request with task_id:[%s] has already been cancelled.''
                        [task_id (request_task_profile msg)],
                      Publish_dispatch_ack \<lparr>dispatch_request = msg, ack_success = True\<rparr>]\<rparr>))
         \<and> (task_id (request_task_profile msg) \<notin> cancelled_task_ids s
              \<and> (assigned_requests s (task_id (request_task_profile msg)) = None
                   \<or> task_id (request_task_profile msg) \<in> all_executed_tasks s) \<longrightarrow>
             (\<exists>fmt args. dispatch_request_cb task_planner now msg s =
                Inr (s\<lparr>fleet_events := fleet_events s @
                       [Fleet_log WARN fmt args,
                        Publish_dispatch_ack \<lparr>dispatch_request = msg, ack_success = False\<rparr>]\<rparr>)))"
proof (intro conjI impI)
  assume "task_id (request_task_profile msg) \<in> cancelled_task_ids s"
  then show "dispatch_request_cb task_planner now msg s =
              Inr (s\<lparr>fleet_events := fleet_events s @
                     [Fleet_log WARN ''Request with task_id:[%s] has already been cancelled.''
                        [task_id (request_task_profile msg)],
                      Publish_dispatch_ack \<lparr>dispatch_request = msg, ack_success = True\<rparr>]\<rparr>)"
    using assms
    by (simp add: dispatch_request_cb_def dispatch_cancel_def publish_ack_def fleet_emit_def)
next
  assume h: "task_id (request_task_profile msg) \<notin> cancelled_task_ids s
              \<and> (assigned_requests s (task_id (request_task_profile msg)) = None
                   \<or> task_id (request_task_profile msg) \<in> all_executed_tasks s)"
  show "\<exists>fmt args. dispatch_request_cb task_planner now msg s =
                Inr (s\<lparr>fleet_events := fleet_events s @
                       [Fleet_log WARN fmt args,
                        Publish_dispatch_ack \<lparr>dispatch_request = msg, ack_success = False\<rparr>]\<rparr>)"
  proof (cases "assigned_requests s (task_id (request_task_profile msg))")
    case None
    then show ?thesis
      using assms h
      by (auto simp: dispatch_request_cb_def dispatch_cancel_def publish_ack_def fleet_emit_def)
  next
    case (Some r)
    then have "task_id (request_task_profile msg) \<in> all_executed_tasks s" using h by simp
    then show ?thesis
      using assms h Some
      by (auto simp: dispatch_request_cb_def dispatch_cancel_def publish_ack_def fleet_emit_def)
  qed
qed


text \<open>
  The theorem at the example fleet: a cancelled id, an id that was never assigned and the
  id of the executed task.
\<close>

theorem cancel_request_acks_witness:
  "request_fleet_name (dispatch_request_for CANCEL ''Clean2'') = name example_fleet
   \<and> request_method (dispatch_request_for CANCEL ''Clean2'') = CANCEL
   \<and> ''Clean2'' \<in> cancelled_task_ids example_fleet
   \<and> dispatch_request_cb idle_planner 0 (dispatch_request_for CANCEL ''Clean2'') example_fleet
       = Inr (example_fleet\<lparr>fleet_events :=
                [Fleet_log WARN ''Request with task_id:[%s] has already been cancelled.''
                   [''Clean2''],
                 Publish_dispatch_ack \<lparr>dispatch_request = dispatch_request_for CANCEL ''Clean2'',
                                       ack_success = True\<rparr>]\<rparr>)
   \<and> ''Clean9'' \<notin> cancelled_task_ids example_fleet
   \<and> assigned_requests example_fleet ''Clean9'' = None
   \<and> published_acks (fleet_events (projr
        (dispatch_request_cb idle_planner 0 (dispatch_request_for CANCEL ''Clean9'') example_fleet)))
       = [\<lparr>dispatch_request = dispatch_request_for CANCEL ''Clean9'', ack_success = False\<rparr>]
   \<and> ''Clean0'' \<notin> cancelled_task_ids example_fleet
   \<and> ''Clean0'' \<in> all_executed_tasks example_fleet
   \<and> published_acks (fleet_events (projr
        (dispatch_request_cb idle_planner 0 (dispatch_request_for CANCEL ''Clean0'') example_fleet)))
       = [\<lparr>dispatch_request = dispatch_request_for CANCEL ''Clean0'', ack_success = False\<rparr>]"
  using cancel_request_acks
      [where msg = "dispatch_request_for CANCEL ''Clean2''" and s = example_fleet
         and task_planner = idle_planner and now = 0]
    cancel_request_acks
      [where msg = "dispatch_request_for CANCEL ''Clean9''" and s = example_fleet
         and task_planner = idle_planner and now = 0]
    cancel_request_acks
      [where msg = "dispatch_request_for CANCEL ''Clean0''" and s = example_fleet
         and task_planner = idle_planner and now = 0]
  by (simp add: fleet_eval_defs)

text \<open>
  Claim C6 (as amended). A request addressed to the fleet with method ADD or CANCEL
  results in exactly one published acknowledgement, for a planner that returns one queue
  per robot. A request with any other method is logged with a warning and ignored: no
  acknowledgement is published and nothing else changes.
\<close>

theorem dispatch_request_acks:
  assumes "request_fleet_name msg = name s"
    and "\<And>t sts rs a. plan task_planner t sts rs = Inr a \<Longrightarrow> length a = length sts"
  shows "(request_method msg = ADD \<or> request_method msg = CANCEL \<longrightarrow>
            (\<exists>s' ok. dispatch_request_cb task_planner now msg s = Inr s'
               \<and> published_acks (fleet_events s') =
                   published_acks (fleet_events s)
                     @ [\<lparr>dispatch_request = msg, ack_success = ok\<rparr>]))
         \<and> (\<forall>m. request_method msg = Unsupported m \<longrightarrow>
               dispatch_request_cb task_planner now msg s =
                 Inr (s\<lparr>fleet_events := fleet_events s @
                        [Fleet_log WARN
                           ''Received DispatchRequest for task_id:[%s] with invalid method. Only ADD and CANCEL methods are supported. This request will be ignored.''
                           [task_id (request_task_profile msg)]]\<rparr>))"
proof (intro conjI impI allI)
  assume "request_method msg = ADD \<or> request_method msg = CANCEL"
  then show "\<exists>s' ok. dispatch_request_cb task_planner now msg s = Inr s'
               \<and> published_acks (fleet_events s') =
                   published_acks (fleet_events s)
                     @ [\<lparr>dispatch_request = msg, ack_success = ok\<rparr>]"
    using assms(1) dispatch_add_acks_once[OF assms(2), where now = now and msg = msg and s = s]
      dispatch_cancel_acks_once[OF assms(2), where now = now and msg = msg and s = s]
    by (auto simp: dispatch_request_cb_def)
next
  fix m
  assume "request_method msg = Unsupported m"
  then show "dispatch_request_cb task_planner now msg s =
                 Inr (s\<lparr>fleet_events := fleet_events s @
                        [Fleet_log WARN
                           ''Received DispatchRequest for task_id:[%s] with invalid method. Only ADD and CANCEL methods are supported. This request will be ignored.''
                           [task_id (request_task_profile msg)]]\<rparr>)"
    using assms(1) by (simp add: dispatch_request_cb_def fleet_emit_def)
qed

text \<open>
  The theorem at the example fleet: the cancel of the queued task is acknowledged with
  success, an award without a bid record without success, and the unsupported method is
  not acknowledged.
\<close>

theorem dispatch_request_acks_witness:
  "request_fleet_name (dispatch_request_for CANCEL ''Clean1'') = name example_fleet
   \<and> (\<exists>s'. dispatch_request_cb idle_planner 0 (dispatch_request_for CANCEL ''Clean1'') example_fleet
             = Inr s'
         \<and> published_acks (fleet_events s')
             = [\<lparr>dispatch_request = dispatch_request_for CANCEL ''Clean1'', ack_success = True\<rparr>]
         \<and> cancelled_task_ids s' = {''Clean1'', ''Clean2''})
   \<and> (\<exists>s'. dispatch_request_cb idle_planner 0 (dispatch_request_for ADD ''Clean1'') example_fleet
             = Inr s'
         \<and> published_acks (fleet_events s')
             = [\<lparr>dispatch_request = dispatch_request_for ADD ''Clean1'', ack_success = False\<rparr>])
   \<and> (\<exists>s'. dispatch_request_cb idle_planner 0 (dispatch_request_for (Unsupported 3) ''Clean1'')
               example_fleet = Inr s'
         \<and> published_acks (fleet_events s') = [])"
  using dispatch_request_acks
      [where msg = "dispatch_request_for CANCEL ''Clean1''" and s = example_fleet
         and task_planner = idle_planner and now = 0]
    dispatch_request_acks
      [where msg = "dispatch_request_for ADD ''Clean1''" and s = example_fleet
         and task_planner = idle_planner and now = 0]
    dispatch_request_acks
      [where msg = "dispatch_request_for (Unsupported 3) ''Clean1''" and s = example_fleet
         and task_planner = idle_planner and now = 0]
  by (simp add: fleet_eval_defs)

text \<open>
  C6 as stated has every request acknowledged. A request with method 3 addressed to the
  fleet leaves the warning as its only trace.
\<close>

theorem unsupported_method_no_ack_counterexample:
  "request_fleet_name (dispatch_request_for (Unsupported 3) ''Clean1'') = name example_fleet
   \<and> \<not> isl (dispatch_request_cb idle_planner 0 (dispatch_request_for (Unsupported 3) ''Clean1'')
              example_fleet)
   \<and> published_acks (fleet_events (projr
        (dispatch_request_cb idle_planner 0 (dispatch_request_for (Unsupported 3) ''Clean1'')
           example_fleet))) = []
   \<and> fleet_events (projr
        (dispatch_request_cb idle_planner 0 (dispatch_request_for (Unsupported 3) ''Clean1'')
           example_fleet))
       = [Fleet_log WARN
            ''Received DispatchRequest for task_id:[%s] with invalid method. Only ADD and CANCEL methods are supported. This request will be ignored.''
            [''Clean1'']]"
  by (simp add: fleet_eval_defs)

end
